theory Spec2Isabelle
  imports Main "HOL-Library.Sublist" "HOL-Library.Multiset"
begin

section \<open>JavaScript strings\<close>

text \<open>
  A JavaScript string is modelled as the list of its code units, for texts whose code
  units are below 256 (ASCII and Latin-1, which covers diff text): an Isabelle
  \<open>string\<close>. \<open>length\<close> is then the \<open>.length\<close> of the source.
\<close>

definition LF :: char where
  "LF = CHR 0x0A"

definition CR :: char where
  "CR = CHR 0x0D"

text \<open>\<open>s.startsWith(p)\<close>.\<close>

definition startsWith :: "string \<Rightarrow> string \<Rightarrow> bool" where
  "startsWith s p = prefix p s"

text \<open>
  \<open>s.split('\n')\<close>: the pieces between the separators; the result is never empty, and
  the empty string gives one empty piece.
\<close>

fun split_lines :: "string \<Rightarrow> string list" where
  "split_lines [] = [[]]"
| "split_lines (c # cs) =
     (if c = LF then [] # split_lines cs
      else (case split_lines cs of
              [] \<Rightarrow> [[c]]
            | l # ls \<Rightarrow> (c # l) # ls))"

text \<open>\<open>ls.join('\n')\<close>: the empty array gives the empty string.\<close>

fun join_lines :: "string list \<Rightarrow> string" where
  "join_lines [] = []"
| "join_lines [l] = l"
| "join_lines (l # m # ls) = l @ LF # join_lines (m # ls)"

text \<open>
  White space and line terminators of ECMAScript among the code units below 256:
  TAB, LF, VT, FF, CR, SP and NBSP. \<open>s.trim()\<close> strips them from both ends.
\<close>

definition js_space :: "char \<Rightarrow> bool" where
  "js_space c \<longleftrightarrow> c \<in> {CHR 0x09, CHR 0x0A, CHR 0x0B, CHR 0x0C, CHR 0x0D, CHR 0x20, CHR 0xA0}"

definition trim :: "string \<Rightarrow> string" where
  "trim s = rev (dropWhile js_space (rev (dropWhile js_space s)))"

section \<open>Diff post-filters\<close>

text \<open>
  The options object of \<open>getPullRequestDiffEnhanced\<close>, which \<open>applyDiffFilters\<close>
  receives as it is. An absent property is \<open>None\<close>.
\<close>

record options =
  file_path :: "string option"
  context_lines :: "int option"
  ignore_whitespace :: "bool option"
  max_size :: "int option"

text \<open>The callback of \<open>lines.filter\<close> in the whitespace branch.\<close>

definition keep_whitespace :: "string \<Rightarrow> bool" where
  "keep_whitespace line =
     (if startsWith line ''diff --git'' \<or> startsWith line ''---''
         \<or> startsWith line ''+++'' \<or> startsWith line ''@@'' then True
      else if (startsWith line ''+'' \<or> startsWith line ''-'') \<and> trim (drop 1 line) = [] then False
      else True)"

text \<open>
  The \<open>for\<close> loop of the context branch: \<open>inHunk\<close> and \<open>contextCount\<close> are the loop's
  variables, the result is what is pushed on \<open>filteredLines\<close>, in order.
\<close>

fun context_loop :: "int \<Rightarrow> bool \<Rightarrow> int \<Rightarrow> string list \<Rightarrow> string list" where
  "context_loop n inHunk contextCount [] = []"
| "context_loop n inHunk contextCount (line # rest) =
     (if startsWith line ''@@'' then line # context_loop n True 0 rest
      else if \<not> inHunk \<or> startsWith line ''diff --git'' \<or> startsWith line ''---''
              \<or> startsWith line ''+++'' then line # context_loop n inHunk contextCount rest
      else if startsWith line ''+'' \<or> startsWith line ''-'' then line # context_loop n inHunk 0 rest
      else if contextCount < n then line # context_loop n inHunk (contextCount + 1) rest
      else context_loop n inHunk contextCount rest)"

definition whitespace_filter :: "string \<Rightarrow> string" where
  "whitespace_filter diff = join_lines (filter keep_whitespace (split_lines diff))"

definition context_filter :: "int \<Rightarrow> string \<Rightarrow> string" where
  "context_filter n diff = join_lines (context_loop n False 0 (split_lines diff))"

definition applyDiffFilters :: "string \<Rightarrow> options \<Rightarrow> string" where
  "applyDiffFilters diff opts =
     (let filteredDiff = (if ignore_whitespace opts = Some True then whitespace_filter diff else diff)
      in case context_lines opts of
           None \<Rightarrow> filteredDiff
         | Some n \<Rightarrow> if n \<ge> 0 then context_filter n filteredDiff else filteredDiff)"

section \<open>Diff parser\<close>

datatype diff_status = Added | Removed | Modified | Renamed

text \<open>
  \<open>DiffStat\<close> of \<open>types.ts\<close>. \<open>old\<close> and \<open>new\<close> hold the path of the object
  \<open>{ path }\<close>, \<open>None\<close> is \<open>null\<close>.
\<close>

record DiffStat =
  old :: "string option"
  new :: "string option"
  status :: diff_status
  lines_added :: nat
  lines_removed :: nat

text \<open>
  Regular expressions. \<open>.\<close> matches every code unit but a line terminator; a lazy
  group \<open>(.+?)\<close> takes the fewest code units (one at least) after which the rest of
  the pattern, \<open>k\<close>, matches; a pattern with no anchor is tried at every start
  position, the leftmost first.
\<close>

definition re_dot :: "char \<Rightarrow> bool" where
  "re_dot c \<longleftrightarrow> c \<noteq> LF \<and> c \<noteq> CR"

fun match_lazy :: "(string \<Rightarrow> 'a option) \<Rightarrow> string \<Rightarrow> string \<Rightarrow> (string \<times> 'a) option" where
  "match_lazy k acc [] = None"
| "match_lazy k acc (c # cs) =
     (if re_dot c then
        (case k cs of
           Some r \<Rightarrow> Some (acc @ [c], r)
         | None \<Rightarrow> match_lazy k (acc @ [c]) cs)
      else None)"

fun regex_search :: "(string \<Rightarrow> 'a option) \<Rightarrow> string \<Rightarrow> 'a option" where
  "regex_search m [] = m []"
| "regex_search m (c # cs) =
     (case m (c # cs) of Some r \<Rightarrow> Some r | None \<Rightarrow> regex_search m cs)"

text \<open>The tail \<open> b\/(.+)\<close>: the greedy group takes every code unit up to a line terminator.\<close>

definition greedy_b :: "string \<Rightarrow> string option" where
  "greedy_b s =
     (if startsWith s '' b/'' then
        (case drop 3 s of
           [] \<Rightarrow> None
         | d # ds \<Rightarrow> if re_dot d then Some (takeWhile re_dot (d # ds)) else None)
      else None)"

text \<open>\<open>line.match(/diff --git a\/(.+?) b\/(.+)/)\<close>: the two groups.\<close>

definition match_stat_header :: "string \<Rightarrow> (string \<times> string) option" where
  "match_stat_header line =
     regex_search
       (\<lambda>s. if startsWith s ''diff --git a/'' then match_lazy greedy_b [] (drop 13 s) else None)
       line"

text \<open>
  The loop of \<open>parseDiffForFileStats\<close>. \<open>currentFile\<close> is a reference to an object
  that \<open>files\<close> may hold too, so the objects live in \<open>heap\<close>, in the order of their
  creation, and \<open>files\<close> and \<open>currentFile\<close> hold positions in it.
\<close>

record parse_state =
  heap :: "DiffStat list"
  files :: "nat list"
  currentFile :: "nat option"

definition count_line :: "string \<Rightarrow> DiffStat \<Rightarrow> DiffStat" where
  "count_line line f =
     (if startsWith line ''+'' \<and> \<not> startsWith line ''+++'' then f\<lparr>lines_added := lines_added f + 1\<rparr>
      else if startsWith line ''-'' \<and> \<not> startsWith line ''---'' then f\<lparr>lines_removed := lines_removed f + 1\<rparr>
      else f)"

definition parse_step :: "parse_state \<Rightarrow> string \<Rightarrow> parse_state" where
  "parse_step st line =
     (let st1 =
        (if startsWith line ''diff --git'' then
           (let pushed = (case currentFile st of
                            Some r \<Rightarrow> st\<lparr>files := files st @ [r]\<rparr>
                          | None \<Rightarrow> st)
            in case match_stat_header line of
                 Some (a, b) \<Rightarrow>
                   pushed\<lparr>heap := heap pushed @
                            [\<lparr>old = Some a, new = Some b,
                              status = (if a = b then Modified else Renamed),
                              lines_added = 0, lines_removed = 0\<rparr>],
                          currentFile := Some (length (heap pushed))\<rparr>
               | None \<Rightarrow> pushed)
         else
           (case currentFile st of
              Some r \<Rightarrow> st\<lparr>heap := (heap st)[r := count_line line (heap st ! r)]\<rparr>
            | None \<Rightarrow> st));
          st2 =
        (if startsWith line ''new file mode'' then
           (case currentFile st1 of
              Some r \<Rightarrow> st1\<lparr>heap := (heap st1)[r := (heap st1 ! r)\<lparr>status := Added, old := None\<rparr>]\<rparr>
            | None \<Rightarrow> st1)
         else st1)
      in if startsWith line ''deleted file mode'' then
           (case currentFile st2 of
              Some r \<Rightarrow> st2\<lparr>heap := (heap st2)[r := (heap st2 ! r)\<lparr>status := Removed, new := None\<rparr>]\<rparr>
            | None \<Rightarrow> st2)
         else st2)"

text \<open>After the loop: the last file is added, and \<open>files\<close> is returned.\<close>

definition parse_result :: "parse_state \<Rightarrow> DiffStat list" where
  "parse_result st =
     map (\<lambda>r. heap st ! r)
       (case currentFile st of Some r \<Rightarrow> files st @ [r] | None \<Rightarrow> files st)"

definition parseDiffForFileStats :: "string \<Rightarrow> DiffStat list" where
  "parseDiffForFileStats diffText =
     parse_result
       (foldl parse_step \<lparr>heap = [], files = [], currentFile = None\<rparr> (split_lines diffText))"

section \<open>File-scoped diff extractor\<close>

text \<open>\<open>s.includes(t)\<close>, \<open>s.endsWith(t)\<close> and \<open>s.split(c)\<close> for a one-character separator.\<close>

fun includes_str :: "string \<Rightarrow> string \<Rightarrow> bool" where
  "includes_str [] t = (t = [])"
| "includes_str (c # cs) t = (prefix t (c # cs) \<or> includes_str cs t)"

definition endsWith :: "string \<Rightarrow> string \<Rightarrow> bool" where
  "endsWith s t = suffix t s"

fun split_on :: "char \<Rightarrow> string \<Rightarrow> string list" where
  "split_on sep [] = [[]]"
| "split_on sep (c # cs) =
     (if c = sep then [] # split_on sep cs
      else (case split_on sep cs of
              [] \<Rightarrow> [[c]]
            | l # ls \<Rightarrow> (c # l) # ls))"

text \<open>\<open>p.replace(/^\/+/, '').replace(/\/+$/, '')\<close>.\<close>

definition normalize_path :: "string \<Rightarrow> string" where
  "normalize_path p =
     rev (dropWhile (\<lambda>c. c = CHR ''/'') (rev (dropWhile (\<lambda>c. c = CHR ''/'') p)))"

text \<open>
  The tail \<open> b\/(.+?)(?:\s|$)\<close> of the extractor's pattern: the lazy group ends before
  the first white space, or at the end of the line.
\<close>

definition lazy_b :: "string \<Rightarrow> string option" where
  "lazy_b s =
     (if startsWith s '' b/'' then
        map_option fst
          (match_lazy (\<lambda>r. if r = [] \<or> js_space (hd r) then Some () else None) [] (drop 3 s))
      else None)"

text \<open>\<open>line.match(/diff --git a\/(.+?) b\/(.+?)(?:\s|$)/)\<close>: the two groups.\<close>

definition match_extract_header :: "string \<Rightarrow> (string \<times> string) option" where
  "match_extract_header line =
     regex_search
       (\<lambda>s. if startsWith s ''diff --git a/'' then match_lazy lazy_b [] (drop 13 s) else None)
       line"

text \<open>The callback of \<open>pathsToCheck.some\<close>.\<close>

definition path_matches :: "string \<Rightarrow> string \<Rightarrow> bool" where
  "path_matches filePath path =
     (let normalizedTargetPath = normalize_path filePath;
          normalizedPath = normalize_path path
      in normalizedPath = normalizedTargetPath
         \<or> endsWith normalizedPath (CHR ''/'' # normalizedTargetPath)
         \<or> endsWith normalizedTargetPath (CHR ''/'' # normalizedPath)
         \<or> includes_str path filePath
         \<or> includes_str filePath path)"

text \<open>The value \<open>inTargetFile\<close> gets at a \<open>diff --git\<close> line, in the first loop.\<close>

definition header_in_target :: "string \<Rightarrow> string \<Rightarrow> bool" where
  "header_in_target filePath line =
     (case match_extract_header line of
        Some (pathA, pathB) \<Rightarrow>
          list_ex (path_matches filePath) [pathA, pathB, normalize_path filePath]
      | None \<Rightarrow>
          includes_str line filePath \<or> includes_str filePath (last (split_on CHR '' '' line)))"

text \<open>The value \<open>inLenientFile\<close> gets at a \<open>diff --git\<close> line, in the second loop.\<close>

definition header_in_lenient :: "string \<Rightarrow> string \<Rightarrow> bool" where
  "header_in_lenient filePath line =
     (let popped = last (split_on CHR ''/'' filePath);
          fileName = (if popped = [] then filePath else popped)
      in includes_str line fileName)"

text \<open>
  The first and the second loop of \<open>extractFileFromDiff\<close> have the same shape:
  \<open>fileBlocks\<close>, \<open>currentBlock\<close> and the flag are the loop's variables, \<open>target\<close>
  computes the flag at a \<open>diff --git\<close> line. The result is \<open>fileBlocks\<close> after the last block has
  been saved.
\<close>

fun block_loop ::
  "(string \<Rightarrow> bool) \<Rightarrow> string list \<Rightarrow> string list \<Rightarrow> bool \<Rightarrow> string list \<Rightarrow> string list" where
  "block_loop target fileBlocks currentBlock inTarget [] =
     (if inTarget \<and> currentBlock \<noteq> [] then fileBlocks @ [join_lines currentBlock] else fileBlocks)"
| "block_loop target fileBlocks currentBlock inTarget (line # rest) =
     (if startsWith line ''diff --git'' then
        block_loop target
          (if inTarget \<and> currentBlock \<noteq> [] then fileBlocks @ [join_lines currentBlock] else fileBlocks)
          [line] (target line) rest
      else block_loop target fileBlocks (currentBlock @ [line]) inTarget rest)"

text \<open>\<open>matchedPaths\<close> after the first loop.\<close>

definition matchedPaths :: "string list \<Rightarrow> string list" where
  "matchedPaths lines =
     concat (map (\<lambda>line. case match_extract_header line of
                            Some (pathA, pathB) \<Rightarrow> [pathA, pathB]
                          | None \<Rightarrow> [])
                 (filter (\<lambda>line. startsWith line ''diff --git'') lines))"

text \<open>\<open>blocks.join('\n\n')\<close>.\<close>

fun join_blocks :: "string list \<Rightarrow> string" where
  "join_blocks [] = []"
| "join_blocks [b] = b"
| "join_blocks (b # c # bs) = b @ LF # LF # join_blocks (c # bs)"

text \<open>A number in a template literal: its decimal digits.\<close>

function show_nat :: "nat \<Rightarrow> string" where
  "show_nat n =
     (if n < 10 then [char_of (48 + n)]
      else show_nat (n div 10) @ [char_of (48 + n mod 10)])"
  by pat_completeness auto
termination
  by (relation "measure id") auto

definition no_changes_message :: "string \<Rightarrow> nat \<Rightarrow> string" where
  "no_changes_message filePath n =
     ''No changes found for file: '' @ filePath @ [LF, LF]
     @ ''Note: Searched in diff containing '' @ show_nat n
     @ '' file paths. Try using just the filename or a partial path.''"

definition extractFileFromDiff :: "string \<Rightarrow> string \<Rightarrow> string" where
  "extractFileFromDiff fullDiff filePath =
     (let lines = split_lines fullDiff;
          fileBlocks = block_loop (header_in_target filePath) [] [] False lines;
          result = join_blocks fileBlocks
      in if trim result = [] then
           (let lenientBlocks = block_loop (header_in_lenient filePath) [] [] False lines
            in if lenientBlocks \<noteq> [] then join_blocks lenientBlocks
               else no_changes_message filePath (length (matchedPaths lines)))
         else result)"

section \<open>Diff fetcher\<close>

text \<open>
  What an awaited call can throw: an axios error, with the status of its response when
  there is one; a plain \<open>Error\<close> with its message; and what \<open>handleBitbucketError\<close>
  throws in place of the error it is given.
\<close>

datatype thrown =
    AxiosError "nat option"
  | PlainError string
  | Handled thrown

definition handleBitbucketError :: "thrown \<Rightarrow> thrown" where
  "handleBitbucketError e = Handled e"

text \<open>\<open>error.response?.status\<close>.\<close>

fun response_status :: "thrown \<Rightarrow> nat option" where
  "response_status (AxiosError st) = st"
| "response_status _ = None"

text \<open>The fields of \<open>PullRequest\<close> and \<open>Commit\<close> (\<open>types.ts\<close>) that the fetcher reads.\<close>

record pull_request =
  title :: string
  source_branch_name :: string
  destination_branch_name :: string
  source_commit_hash :: "string option"
  destination_commit_hash :: "string option"

record commit =
  hash :: string
  message :: string

text \<open>
  The upstream: the outcome of each request \<open>getPullRequestDiff\<close> can make, one field
  for each call of \<open>this.client.get\<close> in the source; the request for the diff of a
  commit is made in a loop, so its outcome depends on the loop's index.
\<close>

record upstream =
  direct_diff :: "thrown + string"
  validation_pr :: "thrown + pull_request"
  fallback_pr :: "thrown + pull_request"
  pr_commits :: "thrown + commit list"
  single_commit_diff :: "nat \<Rightarrow> thrown + string"
  branch_diff :: "thrown + string"
  commit_range_diff :: "thrown + string"

text \<open>
  \<open>s.toLowerCase()\<close> on code units below 256: the letters A to Z and the Latin-1
  capitals (0xC0 to 0xDE but the multiplication sign 0xD7) move up by 32.
\<close>

definition lower_char :: "char \<Rightarrow> char" where
  "lower_char c =
     (let n = (of_char c :: nat)
      in if (65 \<le> n \<and> n \<le> 90) \<or> (192 \<le> n \<and> n \<le> 222 \<and> n \<noteq> 215)
         then char_of (n + 32) else c)"

definition toLowerCase :: "string \<Rightarrow> string" where
  "toLowerCase s = map lower_char s"

text \<open>The two flags of the content check after the direct request.\<close>

definition isEmergencyContactPR :: "pull_request \<Rightarrow> bool" where
  "isEmergencyContactPR pr =
     (let prTitle = toLowerCase (title pr)
      in includes_str prTitle ''emergency'' \<or> includes_str prTitle ''contact''
         \<or> includes_str (source_branch_name pr) ''emergency''
         \<or> includes_str (source_branch_name pr) ''contact'')"

definition diffHasLearningFiles :: "string \<Rightarrow> bool" where
  "diffHasLearningFiles diffContent =
     (includes_str diffContent ''learning-api'' \<or> includes_str diffContent ''cpd''
      \<or> includes_str diffContent ''learningapi'')"

text \<open>
  The \<open>try\<close> block of \<open>getPullRequestDiff\<close>: the direct request, the request for the
  pull request, the content check. \<open>Inl\<close> is what the block throws.
\<close>

definition direct_fetch :: "upstream \<Rightarrow> thrown + string" where
  "direct_fetch u =
     (case direct_diff u of
        Inl e \<Rightarrow> Inl e
      | Inr responseData \<Rightarrow>
          (case validation_pr u of
             Inl e \<Rightarrow> Inl e
           | Inr pr \<Rightarrow>
               if isEmergencyContactPR pr \<and> diffHasLearningFiles (toLowerCase responseData)
               then Inl (PlainError ''Content mismatch: PR diff does not match PR topic'')
               else Inr responseData))"

text \<open>
  Method 1, the loop over the first three commits, from index \<open>i\<close>: \<open>Some\<close> is the
  diff that the loop returns, \<open>None\<close> is the loop running to its end.
\<close>

fun commit_loop :: "upstream \<Rightarrow> string \<Rightarrow> nat \<Rightarrow> commit list \<Rightarrow> string option" where
  "commit_loop u prTitle i [] = None"
| "commit_loop u prTitle i (c # commits) =
     (if i < 3 then
        (case single_commit_diff u i of
           Inl e \<Rightarrow> commit_loop u prTitle (i + 1) commits
         | Inr singleData \<Rightarrow>
             if singleData \<noteq> [] then
               (let commitDiffContent = toLowerCase singleData;
                    commitMsg = toLowerCase (message c)
                in if includes_str prTitle ''emergency'' \<or> includes_str prTitle ''contact'' then
                     (let hasRelevantContent =
                            (includes_str commitDiffContent ''emergency''
                             \<or> includes_str commitDiffContent ''contact''
                             \<or> includes_str commitMsg ''emergency''
                             \<or> includes_str commitMsg ''contact'');
                          hasIrrelevantContent = diffHasLearningFiles commitDiffContent
                      in if hasRelevantContent \<and> \<not> hasIrrelevantContent then Some singleData
                         else commit_loop u prTitle (i + 1) commits)
                   else Some singleData)
             else commit_loop u prTitle (i + 1) commits)
      else None)"

text \<open>
  What \<open>getPullRequestDiff\<close> returns: diff text, or the report that no method gave
  one (a text made of the pull request's fields).
\<close>

datatype pr_diff =
    DiffText string
  | AccessDeniedReport pull_request

text \<open>
  The branch \<open>error.response?.status === 404\<close> of the \<open>catch\<close> block. The request
  for the pull request is outside any \<open>try\<close>: its error goes to the caller as it is.
\<close>

definition fallback_chain :: "upstream \<Rightarrow> thrown + pr_diff" where
  "fallback_chain u =
     (case fallback_pr u of
        Inl e \<Rightarrow> Inl e
      | Inr pr \<Rightarrow>
          (let method1 = (case pr_commits u of
                            Inl e \<Rightarrow> None
                          | Inr commits \<Rightarrow> commit_loop u (toLowerCase (title pr)) 0 commits);
               method2 = (case branch_diff u of
                            Inl e \<Rightarrow> None
                          | Inr d \<Rightarrow> if d \<noteq> [] then Some d else None);
               method3 = (case (source_commit_hash pr, destination_commit_hash pr) of
                            (Some s, Some d) \<Rightarrow>
                              if s \<noteq> [] \<and> d \<noteq> [] then
                                (case commit_range_diff u of
                                   Inl e \<Rightarrow> None
                                 | Inr r \<Rightarrow> if r \<noteq> [] then Some r else None)
                              else None
                          | _ \<Rightarrow> None)
           in case method1 of
                Some d \<Rightarrow> Inr (DiffText d)
              | None \<Rightarrow>
                  (case method2 of
                     Some d \<Rightarrow> Inr (DiffText d)
                   | None \<Rightarrow>
                       (case method3 of
                          Some d \<Rightarrow> Inr (DiffText d)
                        | None \<Rightarrow> Inr (AccessDeniedReport pr)))))"

definition getPullRequestDiff :: "upstream \<Rightarrow> thrown + pr_diff" where
  "getPullRequestDiff u =
     (case direct_fetch u of
        Inr responseData \<Rightarrow> Inr (DiffText responseData)
      | Inl error \<Rightarrow>
          if response_status error = Some 404 then fallback_chain u
          else Inl (handleBitbucketError error))"

section \<open>Size budget\<close>

text \<open>
  \<open>getPullRequestDiffStat\<close>, from the outcome of its request to the \<open>diffstat\<close>
  endpoint (\<open>response.data.values || []\<close>) and the outcome of the call of
  \<open>getPullRequestDiff\<close> in its \<open>catch\<close> block.
\<close>

definition getPullRequestDiffStat ::
  "thrown + DiffStat list \<Rightarrow> thrown + string \<Rightarrow> thrown + DiffStat list" where
  "getPullRequestDiffStat diffstat_response diffText =
     (case diffstat_response of
        Inr values \<Rightarrow> Inr values
      | Inl error \<Rightarrow>
          (case diffText of
             Inr d \<Rightarrow> Inr (parseDiffForFileStats d)
           | Inl fallbackError \<Rightarrow> Inl (handleBitbucketError error)))"

text \<open>
  The outcomes of the calls that \<open>getPullRequestDiffEnhanced\<close> awaits, in the order of
  the source: \<open>getFileSpecificDiff\<close>, \<open>getPullRequestDiff\<close> in the \<open>try\<close> block,
  \<open>getPullRequestDiffStat\<close>, and \<open>getPullRequestDiff\<close> in the \<open>catch\<close> block. They are
  separate requests to the upstream, so each has an outcome of its own.
\<close>

record awaited =
  file_specific_diff :: "thrown + string"
  full_diff :: "thrown + string"
  diff_stat :: "thrown + DiffStat list"
  original_diff :: "thrown + string"

text \<open>
  The text of the summary is a fixed template around these parts: the rounded
  estimate, the limit, the number of files, the lines of the first ten files, the
  count after \<open>... and\<close> when there are more, and the lines under
  \<open>Most changed files\<close>.
\<close>

record summary =
  estimated :: int
  limit :: int
  files_changed :: nat
  listed :: "(string \<times> diff_status \<times> nat \<times> nat) list"
  more_files :: "nat option"
  most_changed :: "(string option \<times> nat \<times> nat) list"

datatype diff_output =
    RawDiff string
  | TooLarge summary

record enhanced_result =
  diff :: diff_output
  truncated :: bool
  files_list :: "string list option"

text \<open>\<open>stat.new?.path || stat.old?.path\<close>: the empty string is falsy.\<close>

definition stat_path :: "DiffStat \<Rightarrow> string option" where
  "stat_path stat =
     (case new stat of
        Some p \<Rightarrow> if p \<noteq> [] then Some p else old stat
      | None \<Rightarrow> old stat)"

definition stat_path_or_unknown :: "DiffStat \<Rightarrow> string" where
  "stat_path_or_unknown stat =
     (case stat_path stat of
        Some p \<Rightarrow> if p \<noteq> [] then p else ''unknown''
      | None \<Rightarrow> ''unknown'')"

text \<open>
  \<open>diffStat.sort((a, b) => (b.lines_added + b.lines_removed) - (a.lines_added +
  a.lines_removed))\<close>: a stable sort, the largest total first.
\<close>

definition total_changes :: "DiffStat \<Rightarrow> nat" where
  "total_changes stat = lines_added stat + lines_removed stat"

definition sort_by_changes :: "DiffStat list \<Rightarrow> DiffStat list" where
  "sort_by_changes diffStat = sort_key (\<lambda>stat. - int (total_changes stat)) diffStat"

definition too_large_summary :: "nat \<Rightarrow> int \<Rightarrow> DiffStat list \<Rightarrow> summary" where
  "too_large_summary len MAX_TOKEN_SIZE diffStat =
     \<lparr>estimated = (int len + 2) div 4,
      limit = MAX_TOKEN_SIZE,
      files_changed = length diffStat,
      listed = map (\<lambda>stat. (stat_path_or_unknown stat, status stat,
                              lines_added stat, lines_removed stat))
                   (take 10 diffStat),
      more_files = (if length diffStat > 10 then Some (length diffStat - 10) else None),
      most_changed = map (\<lambda>stat. (stat_path stat, lines_added stat, lines_removed stat))
                         (take 5 (sort_by_changes diffStat))\<rparr>"

text \<open>
  \<open>const MAX_TOKEN_SIZE = options.max_size || 20000\<close>: the default stands for an
  absent and for a zero \<open>max_size\<close>.
\<close>

definition MAX_TOKEN_SIZE :: "options \<Rightarrow> int" where
  "MAX_TOKEN_SIZE opts =
     (case max_size opts of
        None \<Rightarrow> 20000
      | Some m \<Rightarrow> if m = 0 then 20000 else m)"

text \<open>
  The \<open>try\<close> block of \<open>getPullRequestDiffEnhanced\<close>; \<open>Inl\<close> is what it throws.
  \<open>fullDiff.length / 4 <= MAX_TOKEN_SIZE\<close> is \<open>fullDiff.length <= 4 * MAX_TOKEN_SIZE\<close>;
  an empty \<open>file_path\<close> is falsy.
\<close>

definition enhanced_try :: "awaited \<Rightarrow> options \<Rightarrow> thrown + enhanced_result" where
  "enhanced_try a opts =
     (case (case file_path opts of None \<Rightarrow> None | Some p \<Rightarrow> if p = [] then None else Some p) of
        Some p \<Rightarrow>
          (case file_specific_diff a of
             Inl e \<Rightarrow> Inl e
           | Inr fileSpecificDiff \<Rightarrow>
               Inr \<lparr>diff = RawDiff (applyDiffFilters fileSpecificDiff opts),
                    truncated = False, files_list = Some [p]\<rparr>)
      | None \<Rightarrow>
          (case full_diff a of
             Inl e \<Rightarrow> Inl e
           | Inr fullDiff \<Rightarrow>
               if int (length fullDiff) \<le> 4 * MAX_TOKEN_SIZE opts then
                 Inr \<lparr>diff = RawDiff (applyDiffFilters fullDiff opts),
                      truncated = False, files_list = None\<rparr>
               else
                 (case diff_stat a of
                    Inl e \<Rightarrow> Inl e
                  | Inr diffStat \<Rightarrow>
                      Inr \<lparr>diff = TooLarge (too_large_summary (length fullDiff)
                                                (MAX_TOKEN_SIZE opts) diffStat),
                           truncated = True,
                           files_list = Some (map stat_path_or_unknown diffStat)\<rparr>)))"

text \<open>
  \<open>getPullRequestDiffEnhanced\<close>: whatever the \<open>try\<close> block throws, the \<open>catch\<close> block
  fetches the diff again and returns it.
\<close>

definition getPullRequestDiffEnhanced :: "awaited \<Rightarrow> options \<Rightarrow> thrown + enhanced_result" where
  "getPullRequestDiffEnhanced a opts =
     (case enhanced_try a opts of
        Inr r \<Rightarrow> Inr r
      | Inl error \<Rightarrow>
          (case original_diff a of
             Inl e \<Rightarrow> Inl e
           | Inr originalDiff \<Rightarrow>
               Inr \<lparr>diff = RawDiff (applyDiffFilters originalDiff opts),
                    truncated = False, files_list = None\<rparr>))"

section \<open>TTL cache\<close>

record 'v CacheEntry =
  data :: 'v
  timestamp :: int
  ttl :: int

type_synonym 'v cache = "string \<rightharpoonup> 'v CacheEntry"

text \<open>
  \<open>SimpleCache\<close>: the \<open>Map\<close> is the state, \<open>now\<close> is what \<open>Date.now()\<close> returns in
  the call. \<open>get\<close> returns its result with the new state.
\<close>

definition cache_set :: "'v cache \<Rightarrow> int \<Rightarrow> string \<Rightarrow> 'v \<Rightarrow> int option \<Rightarrow> 'v cache" where
  "cache_set c now key d ttlMs =
     c(key \<mapsto> \<lparr>data = d, timestamp = now,
                 ttl = (case ttlMs of None \<Rightarrow> 300000 | Some t \<Rightarrow> t)\<rparr>)"

definition cache_get :: "'v cache \<Rightarrow> int \<Rightarrow> string \<Rightarrow> 'v option \<times> 'v cache" where
  "cache_get c now key =
     (case c key of
        None \<Rightarrow> (None, c)
      | Some entry \<Rightarrow>
          if now - timestamp entry > ttl entry then (None, c(key := None))
          else (Some (data entry), c))"

definition cache_delete :: "'v cache \<Rightarrow> string \<Rightarrow> 'v cache" where
  "cache_delete c key = c(key := None)"

text \<open>\<open>cleanup\<close>: the keys of the expired entries are collected, then deleted.\<close>

definition expired :: "int \<Rightarrow> 'v CacheEntry \<Rightarrow> bool" where
  "expired now entry \<longleftrightarrow> now - timestamp entry > ttl entry"

definition cleanup :: "'v cache \<Rightarrow> int \<Rightarrow> 'v cache" where
  "cleanup c now =
     (\<lambda>key. case c key of
               None \<Rightarrow> None
             | Some entry \<Rightarrow> if expired now entry then None else Some entry)"

section \<open>Transport layer\<close>











section \<open>Notions of the specification\<close>

text \<open>
  The definitions of this section follow the words of the specification, not the
  source: the theorems below compare the functions above with them.
\<close>

subsection \<open>File sections of a diff\<close>

definition is_file_header :: "string \<Rightarrow> bool" where
  "is_file_header line = startsWith line ''diff --git''"

text \<open>
  The file sections of a list of lines: each \<open>diff --git\<close> line with the lines
  between it and the next \<open>diff --git\<close> line, or the end.
\<close>

fun sections :: "string list \<Rightarrow> (string \<times> string list) list" where
  "sections [] = []"
| "sections (line # rest) =
     (if is_file_header line
      then (line, takeWhile (\<lambda>l. \<not> is_file_header l) rest) # sections rest
      else sections rest)"

definition added_lines :: "string list \<Rightarrow> nat" where
  "added_lines body = length (filter (\<lambda>l. startsWith l ''+'' \<and> \<not> startsWith l ''+++'') body)"

definition removed_lines :: "string list \<Rightarrow> nat" where
  "removed_lines body = length (filter (\<lambda>l. startsWith l ''-'' \<and> \<not> startsWith l ''---'') body)"

text \<open>Every \<open>diff --git\<close> line has the form \<open>diff --git a/<old> b/<new>\<close>.\<close>

definition well_formed_headers :: "string list \<Rightarrow> bool" where
  "well_formed_headers lines =
     list_all (\<lambda>l. is_file_header l \<longrightarrow> match_stat_header l \<noteq> None) lines"

definition is_mode_line :: "string \<Rightarrow> bool" where
  "is_mode_line l \<longleftrightarrow> startsWith l ''new file mode'' \<or> startsWith l ''deleted file mode''"

text \<open>
  The record of one file section: the paths of its header, the old path absent when
  the section has a \<open>new file mode\<close> line and the new path absent when it has a
  \<open>deleted file mode\<close> line, the classification by the last of these lines if there
  is one and by the comparison of the paths otherwise, and the counts of its lines.
\<close>

definition section_stat :: "string \<times> string list \<Rightarrow> DiffStat" where
  "section_stat sec =
     (case sec of (header, body) \<Rightarrow>
        (case match_stat_header header of
           None \<Rightarrow> \<lparr>old = None, new = None, status = Modified, lines_added = 0, lines_removed = 0\<rparr>
         | Some (a, b) \<Rightarrow>
             \<lparr>old = (if list_ex (\<lambda>l. startsWith l ''new file mode'') body then None else Some a),
              new = (if list_ex (\<lambda>l. startsWith l ''deleted file mode'') body then None else Some b),
              status = (case rev (filter is_mode_line body) of
                          [] \<Rightarrow> if a = b then Modified else Renamed
                        | m # ms \<Rightarrow> if startsWith m ''new file mode'' then Added else Removed),
              lines_added = added_lines body,
              lines_removed = removed_lines body\<rparr>))"

subsection \<open>Blocks of the extractor\<close>

text \<open>The text of a file section: its lines, joined.\<close>

definition section_text :: "string \<times> string list \<Rightarrow> string" where
  "section_text sec = (case sec of (header, body) \<Rightarrow> join_lines (header # body))"

subsection \<open>Lines of a hunk\<close>

definition is_header_line :: "string \<Rightarrow> bool" where
  "is_header_line l \<longleftrightarrow>
     startsWith l ''diff --git'' \<or> startsWith l ''---'' \<or> startsWith l ''+++'' \<or> startsWith l ''@@''"

definition is_change_line :: "string \<Rightarrow> bool" where
  "is_change_line l \<longleftrightarrow> \<not> is_header_line l \<and> (startsWith l ''+'' \<or> startsWith l ''-'')"

definition is_context_line :: "string \<Rightarrow> bool" where
  "is_context_line l \<longleftrightarrow> \<not> is_header_line l \<and> \<not> is_change_line l"

text \<open>A hunk has started: a hunk-header line is among the lines before.\<close>

definition hunk_started :: "string list \<Rightarrow> bool" where
  "hunk_started before = list_ex (\<lambda>l. startsWith l ''@@'') before"

text \<open>
  The number of context lines since the last change or hunk-header line, among the
  lines before.
\<close>

definition trailing_context :: "string list \<Rightarrow> nat" where
  "trailing_context before =
     length (filter is_context_line
               (takeWhile (\<lambda>l. \<not> (startsWith l ''@@'' \<or> is_change_line l)) (rev before)))"

text \<open>
  The line \<open>l\<close>, after the lines \<open>before\<close>, passes the context trimming with \<open>n\<close>
  lines of context: it is before every hunk, or a header line, or a change, or one
  of the first \<open>n\<close> context lines since the last change or hunk header.
\<close>

definition passes_context :: "int \<Rightarrow> string list \<Rightarrow> string \<Rightarrow> bool" where
  "passes_context n before l \<longleftrightarrow>
     \<not> hunk_started before \<or> is_header_line l \<or> is_change_line l
     \<or> int (trailing_context before) < n"

definition trimmed_lines :: "int \<Rightarrow> string list \<Rightarrow> string list" where
  "trimmed_lines n lines =
     map (\<lambda>i. lines ! i)
       (filter (\<lambda>i. passes_context n (take i lines) (lines ! i)) [0..<length lines])"

text \<open>
  In the format of a unified diff a hunk belongs to a file section: a line with no
  hunk-header line between the last \<open>diff --git\<close> line before it and itself is outside
  any hunk.
\<close>

definition outside_any_hunk :: "string list \<Rightarrow> bool" where
  "outside_any_hunk before =
     (\<not> list_ex (\<lambda>l. startsWith l ''@@'')
          (takeWhile (\<lambda>l. \<not> is_file_header l) (rev before)))"

subsection \<open>Retries in a trace\<close>





subsection \<open>Auxiliary notions\<close>

text \<open>What a line that is no \<open>diff --git\<close> line does to the current record of the parser.\<close>

definition absorb :: "DiffStat \<Rightarrow> string \<Rightarrow> DiffStat" where
  "absorb f line =
     (let f1 = count_line line f;
          f2 = (if startsWith line ''new file mode'' then f1\<lparr>status := Added, old := None\<rparr> else f1)
      in if startsWith line ''deleted file mode'' then f2\<lparr>status := Removed, new := None\<rparr> else f2)"

text \<open>The parser's state while a record is open: the finished records, then the current one.\<close>

definition open_state :: "DiffStat list \<Rightarrow> DiffStat \<Rightarrow> parse_state" where
  "open_state finished cur =
     \<lparr>heap = finished @ [cur], files = [0..<length finished], currentFile = Some (length finished)\<rparr>"

definition new_stat :: "string \<Rightarrow> string \<Rightarrow> DiffStat" where
  "new_stat a b =
     \<lparr>old = Some a, new = Some b, status = (if a = b then Modified else Renamed),
      lines_added = 0, lines_removed = 0\<rparr>"

section \<open>Lines of a text\<close>

lemma split_lines_nonempty: "split_lines s \<noteq> []"
  by (induction s) (auto split: list.splits)

lemma join_split_lines: "join_lines (split_lines s) = s"
proof (induction s)
  case Nil
  show ?case by simp
next
  case (Cons c cs)
  obtain l ls where sp: "split_lines cs = l # ls"
    using split_lines_nonempty [of cs] by (cases "split_lines cs") auto
  show ?case
  proof (cases "c = LF")
    case True
    with Cons sp show ?thesis by simp
  next
    case False
    with Cons sp show ?thesis by (cases ls) auto
  qed
qed

lemma split_lines_no_LF: "l \<in> set (split_lines s) \<Longrightarrow> LF \<notin> set l"
proof (induction s arbitrary: l)
  case Nil
  then show ?case by simp
next
  case (Cons c cs)
  obtain m ms where sp: "split_lines cs = m # ms"
    using split_lines_nonempty [of cs] by (cases "split_lines cs") auto
  show ?case
  proof (cases "c = LF")
    case True
    with Cons sp show ?thesis by auto
  next
    case False
    with Cons.prems sp have "l = c # m \<or> l \<in> set ms" by auto
    with Cons.IH sp False show ?thesis by auto
  qed
qed

lemma split_lines_single: "LF \<notin> set l \<Longrightarrow> split_lines l = [l]"
  by (induction l) auto

lemma split_lines_append_line:
  "LF \<notin> set l \<Longrightarrow> split_lines (l @ LF # s) = l # split_lines s"
  by (induction l) auto

lemma split_join_lines:
  "ls \<noteq> [] \<Longrightarrow> \<forall>l \<in> set ls. LF \<notin> set l \<Longrightarrow> split_lines (join_lines ls) = ls"
proof (induction ls rule: join_lines.induct)
  case 1
  then show ?case by simp
next
  case (2 l)
  then show ?case by (simp add: split_lines_single)
next
  case (3 l m ls)
  then show ?case by (simp add: split_lines_append_line)
qed

text \<open>The lines of a joined list: the list itself, but one empty line for the empty list.\<close>

lemma split_join_sublist:
  assumes "set ks \<subseteq> set (split_lines d)"
  shows "split_lines (join_lines ks) = (if ks = [] then [[]] else ks)"
proof (cases "ks = []")
  case True
  then show ?thesis by simp
next
  case False
  from assms have "\<forall>l \<in> set ks. LF \<notin> set l"
    using split_lines_no_LF by blast
  with False show ?thesis by (simp add: split_join_lines)
qed

section \<open>Properties of the post-filters\<close>

lemma startsWith_Nil [simp]: "startsWith [] p \<longleftrightarrow> p = []"
  by (simp add: startsWith_def)

lemma keep_whitespace_Nil: "keep_whitespace []"
  by (simp add: keep_whitespace_def)

lemma header_keep_whitespace: "is_header_line l \<Longrightarrow> keep_whitespace l"
  by (simp add: is_header_line_def keep_whitespace_def)

lemma not_header_Nil: "\<not> is_header_line []"
  by (simp add: is_header_line_def)

lemma context_loop_subset: "set (context_loop n h c ls) \<subseteq> set ls"
  by (induction ls arbitrary: h c) auto

lemma context_loop_subseq: "subseq (context_loop n h c ls) ls"
  by (induction ls arbitrary: h c) auto

lemma context_loop_nonempty: "ls \<noteq> [] \<Longrightarrow> context_loop n False c ls \<noteq> []"
  by (cases ls) auto

lemma context_loop_idem:
  "context_loop n h c (context_loop n h c ls) = context_loop n h c ls"
  by (induction ls arbitrary: h c) auto

lemma context_loop_headers:
  "filter is_header_line (context_loop n h c ls) = filter is_header_line ls"
  by (induction ls arbitrary: h c) (auto simp: is_header_line_def)

lemma split_whitespace_filter:
  "split_lines (whitespace_filter d) =
     (if filter keep_whitespace (split_lines d) = [] then [[]]
      else filter keep_whitespace (split_lines d))"
  unfolding whitespace_filter_def
  by (rule split_join_sublist [of _ d]) auto

lemma split_context_filter:
  "split_lines (context_filter n d) = context_loop n False 0 (split_lines d)"
proof -
  have "context_loop n False 0 (split_lines d) \<noteq> []"
    by (rule context_loop_nonempty) (rule split_lines_nonempty)
  moreover have "set (context_loop n False 0 (split_lines d)) \<subseteq> set (split_lines d)"
    by (rule context_loop_subset)
  ultimately show ?thesis
    unfolding context_filter_def using split_join_sublist [of _ d] by simp
qed

lemma whitespace_lines_kept: "l \<in> set (split_lines (whitespace_filter d)) \<Longrightarrow> keep_whitespace l"
  by (auto simp: split_whitespace_filter keep_whitespace_Nil split: if_splits)

lemma whitespace_filter_fixed:
  assumes "\<forall>l \<in> set (split_lines d). keep_whitespace l"
  shows "whitespace_filter d = d"
proof -
  from assms have "filter keep_whitespace (split_lines d) = split_lines d"
    by (simp add: filter_id_conv)
  then show ?thesis by (simp add: whitespace_filter_def join_split_lines)
qed

lemma whitespace_filter_idem: "whitespace_filter (whitespace_filter d) = whitespace_filter d"
  by (rule whitespace_filter_fixed) (simp add: whitespace_lines_kept)

lemma context_filter_idem: "context_filter n (context_filter n d) = context_filter n d"
  by (simp add: context_filter_def [of n "context_filter n d"] split_context_filter
        context_loop_idem)
     (simp add: context_filter_def)

lemma whitespace_after_context:
  "whitespace_filter (context_filter n (whitespace_filter d)) = context_filter n (whitespace_filter d)"
proof (rule whitespace_filter_fixed, rule ballI)
  fix l
  assume "l \<in> set (split_lines (context_filter n (whitespace_filter d)))"
  then have "l \<in> set (context_loop n False 0 (split_lines (whitespace_filter d)))"
    by (simp add: split_context_filter)
  then have "l \<in> set (split_lines (whitespace_filter d))"
    using context_loop_subset [of n False 0 "split_lines (whitespace_filter d)"] by blast
  then show "keep_whitespace l" by (rule whitespace_lines_kept)
qed

lemma whitespace_filter_headers:
  "filter is_header_line (split_lines (whitespace_filter d)) = filter is_header_line (split_lines d)"
proof -
  have eq: "filter is_header_line (filter keep_whitespace ls) = filter is_header_line ls" for ls
    by (induction ls) (auto simp: header_keep_whitespace)
  show ?thesis
  proof (cases "filter keep_whitespace (split_lines d) = []")
    case True
    then have "filter is_header_line (filter keep_whitespace (split_lines d)) = []" by simp
    then have "filter is_header_line (split_lines d) = []" by (simp only: eq)
    with True show ?thesis by (simp add: split_whitespace_filter not_header_Nil)
  next
    case False
    then have "split_lines (whitespace_filter d) = filter keep_whitespace (split_lines d)"
      by (simp add: split_whitespace_filter)
    then show ?thesis by (simp only: eq)
  qed
qed

lemma context_filter_headers:
  "filter is_header_line (split_lines (context_filter n d)) = filter is_header_line (split_lines d)"
  by (simp add: split_context_filter context_loop_headers)

lemma applyDiffFilters_cases:
  "applyDiffFilters d opts =
     (if ignore_whitespace opts = Some True then
        (case context_lines opts of
           None \<Rightarrow> whitespace_filter d
         | Some n \<Rightarrow> if n \<ge> 0 then context_filter n (whitespace_filter d) else whitespace_filter d)
      else
        (case context_lines opts of
           None \<Rightarrow> d
         | Some n \<Rightarrow> if n \<ge> 0 then context_filter n d else d))"
  by (simp add: applyDiffFilters_def split: option.splits)

lemma is_header_line_cases:
  "is_header_line l \<longleftrightarrow>
     startsWith l ''@@'' \<or> startsWith l ''diff --git'' \<or> startsWith l ''---'' \<or> startsWith l ''+++''"
  by (auto simp: is_header_line_def)

lemma hunk_started_snoc: "hunk_started (pre @ [l]) \<longleftrightarrow> hunk_started pre \<or> startsWith l ''@@''"
  by (auto simp: hunk_started_def)

lemma trailing_context_snoc:
  "trailing_context (pre @ [l]) =
     (if startsWith l ''@@'' \<or> is_change_line l then 0
      else if is_context_line l then Suc (trailing_context pre)
      else trailing_context pre)"
  by (simp add: trailing_context_def)

text \<open>The selection of the specification, line by line.\<close>

lemma trimmed_from_Cons:
  "map (\<lambda>i. (l # ls) ! i)
     (filter (\<lambda>i. passes_context n (pre @ take i (l # ls)) ((l # ls) ! i)) [0..<length (l # ls)])
   = (if passes_context n pre l then [l] else [])
     @ map (\<lambda>i. ls ! i)
         (filter (\<lambda>i. passes_context n ((pre @ [l]) @ take i ls) (ls ! i)) [0..<length ls])"
proof -
  have upt: "[0..<length (l # ls)] = 0 # map Suc [0..<length ls]"
    by (simp add: upt_conv_Cons map_Suc_upt del: upt_Suc)
  show ?thesis
    unfolding upt by (simp add: filter_map comp_def)
qed

lemma context_loop_trimmed_from:
  assumes "h = hunk_started pre"
    and "h \<Longrightarrow> (int (trailing_context pre) < n \<and> c = int (trailing_context pre))
               \<or> (n \<le> int (trailing_context pre) \<and> n \<le> c)"
  shows "context_loop n h c ls =
         map (\<lambda>i. ls ! i)
           (filter (\<lambda>i. passes_context n (pre @ take i ls) (ls ! i)) [0..<length ls])"
  using assms
proof (induction ls arbitrary: h c pre)
  case Nil
  show ?case by simp
next
  case (Cons l ls)
  note step = trimmed_from_Cons [of l ls n pre]
  consider (hunk) "startsWith l ''@@''"
    | (pass) "\<not> startsWith l ''@@''"
        "\<not> h \<or> startsWith l ''diff --git'' \<or> startsWith l ''---'' \<or> startsWith l ''+++''"
    | (change) "\<not> is_header_line l" "h" "startsWith l ''+'' \<or> startsWith l ''-''"
    | (plain) "\<not> is_header_line l" "h" "\<not> (startsWith l ''+'' \<or> startsWith l ''-'')"
    by (auto simp: is_header_line_cases)
  then show ?case
  proof cases
    case hunk
    then have p: "passes_context n pre l"
      by (simp add: passes_context_def is_header_line_cases)
    have "context_loop n True 0 ls =
          map (\<lambda>i. ls ! i)
            (filter (\<lambda>i. passes_context n ((pre @ [l]) @ take i ls) (ls ! i)) [0..<length ls])"
      by (rule Cons.IH) (use hunk in \<open>auto simp: hunk_started_snoc trailing_context_snoc\<close>)
    with hunk p show ?thesis by (simp only: step) simp
  next
    case pass
    then have p: "passes_context n pre l"
      using Cons.prems(1) by (auto simp: passes_context_def is_header_line_cases)
    have notchg: "h \<Longrightarrow> \<not> is_change_line l \<and> \<not> is_context_line l"
      using pass by (auto simp: is_change_line_def is_context_line_def is_header_line_cases)
    have "context_loop n h c ls =
          map (\<lambda>i. ls ! i)
            (filter (\<lambda>i. passes_context n ((pre @ [l]) @ take i ls) (ls ! i)) [0..<length ls])"
    proof (rule Cons.IH)
      show "h = hunk_started (pre @ [l])"
        using pass Cons.prems(1) by (simp add: hunk_started_snoc)
      show "(int (trailing_context (pre @ [l])) < n \<and> c = int (trailing_context (pre @ [l])))
            \<or> (n \<le> int (trailing_context (pre @ [l])) \<and> n \<le> c)" if "h"
        using that notchg pass Cons.prems(2) by (simp add: trailing_context_snoc)
    qed
    with pass p show ?thesis by (simp only: step) auto
  next
    case change
    then have chg: "is_change_line l" by (simp add: is_change_line_def)
    then have p: "passes_context n pre l" by (simp add: passes_context_def)
    from change have nh: "\<not> startsWith l ''@@''" "\<not> startsWith l ''diff --git''"
      "\<not> startsWith l ''---''" "\<not> startsWith l ''+++''"
      by (auto simp: is_header_line_cases)
    have "context_loop n h 0 ls =
          map (\<lambda>i. ls ! i)
            (filter (\<lambda>i. passes_context n ((pre @ [l]) @ take i ls) (ls ! i)) [0..<length ls])"
      by (rule Cons.IH)
         (use change chg nh Cons.prems(1) in \<open>auto simp: hunk_started_snoc trailing_context_snoc\<close>)
    with change nh p show ?thesis by (simp only: step) auto
  next
    case plain
    then have ctx: "is_context_line l" "\<not> is_change_line l"
      by (auto simp: is_context_line_def is_change_line_def)
    from plain have nh: "\<not> startsWith l ''@@''" "\<not> startsWith l ''diff --git''"
      "\<not> startsWith l ''---''" "\<not> startsWith l ''+++''"
      by (auto simp: is_header_line_cases)
    from plain Cons.prems have inv:
      "(int (trailing_context pre) < n \<and> c = int (trailing_context pre))
       \<or> (n \<le> int (trailing_context pre) \<and> n \<le> c)"
      and hs: "hunk_started pre" by auto
    show ?thesis
    proof (cases "c < n")
      case True
      with inv have t: "int (trailing_context pre) < n" "c = int (trailing_context pre)" by auto
      then have p: "passes_context n pre l" by (simp add: passes_context_def)
      have "context_loop n h (c + 1) ls =
            map (\<lambda>i. ls ! i)
              (filter (\<lambda>i. passes_context n ((pre @ [l]) @ take i ls) (ls ! i)) [0..<length ls])"
        by (rule Cons.IH)
           (use plain ctx nh hs t in \<open>auto simp: hunk_started_snoc trailing_context_snoc\<close>)
      with plain nh p True show ?thesis by (simp only: step) auto
    next
      case False
      with inv have t: "n \<le> int (trailing_context pre)" "n \<le> c" by auto
      with hs plain ctx have p: "\<not> passes_context n pre l"
        by (simp add: passes_context_def)
      have "context_loop n h c ls =
            map (\<lambda>i. ls ! i)
              (filter (\<lambda>i. passes_context n ((pre @ [l]) @ take i ls) (ls ! i)) [0..<length ls])"
        by (rule Cons.IH)
           (use plain ctx nh hs t in \<open>auto simp: hunk_started_snoc trailing_context_snoc\<close>)
      with plain nh p False show ?thesis by (simp only: step) auto
    qed
  qed
qed

lemma context_loop_trimmed: "context_loop n False 0 ls = trimmed_lines n ls"
  unfolding trimmed_lines_def
  using context_loop_trimmed_from [of False "[]" n 0 ls] by (simp add: hunk_started_def)

lemma applyDiffFilters_shapes:
  "applyDiffFilters d opts = d \<or> applyDiffFilters d opts = whitespace_filter d
   \<or> (\<exists>n. applyDiffFilters d opts = context_filter n d)
   \<or> (\<exists>n. applyDiffFilters d opts = context_filter n (whitespace_filter d))"
proof (cases "context_lines opts")
  case None
  then show ?thesis by (simp add: applyDiffFilters_cases)
next
  case (Some n)
  then show ?thesis by (cases "0 \<le> n"; cases "ignore_whitespace opts = Some True")
      (simp_all add: applyDiffFilters_cases, blast+)
qed

lemma applyDiffFilters_as_join:
  "\<exists>ks. subseq ks (split_lines d) \<and> applyDiffFilters d opts = join_lines ks
        \<and> (ks \<noteq> [] \<longrightarrow> split_lines (applyDiffFilters d opts) = ks)"
proof -
  let ?ls = "split_lines d"
  let ?K = "filter keep_whitespace ?ls"
  have id: "subseq ?ls ?ls \<and> d = join_lines ?ls \<and> (?ls \<noteq> [] \<longrightarrow> split_lines d = ?ls)"
    by (simp add: join_split_lines)
  have ws: "subseq ?K ?ls \<and> whitespace_filter d = join_lines ?K
            \<and> (?K \<noteq> [] \<longrightarrow> split_lines (whitespace_filter d) = ?K)"
    by (simp add: split_whitespace_filter) (simp add: whitespace_filter_def)
  have ctx: "subseq (context_loop n False 0 ?ls) ?ls
             \<and> context_filter n d = join_lines (context_loop n False 0 ?ls)
             \<and> (context_loop n False 0 ?ls \<noteq> []
                  \<longrightarrow> split_lines (context_filter n d) = context_loop n False 0 ?ls)" for n
    by (simp add: context_loop_subseq split_context_filter) (simp add: context_filter_def)
  have cw: "\<exists>ks. subseq ks ?ls \<and> context_filter n (whitespace_filter d) = join_lines ks
              \<and> (ks \<noteq> [] \<longrightarrow> split_lines (context_filter n (whitespace_filter d)) = ks)" for n
  proof (cases "?K = []")
    case True
    then have "whitespace_filter d = []" by (simp add: whitespace_filter_def)
    then have "context_filter n (whitespace_filter d) = join_lines []"
      by (simp add: context_filter_def)
    then show ?thesis by (intro exI [of _ "[]"]) simp
  next
    case False
    let ?C = "context_loop n False 0 ?K"
    from False have sp: "split_lines (whitespace_filter d) = ?K"
      by (simp add: split_whitespace_filter)
    have "subseq ?C ?K" by (rule context_loop_subseq)
    moreover have "subseq ?K ?ls" by simp
    ultimately have "subseq ?C ?ls" by (rule subseq_order.trans)
    moreover have "context_filter n (whitespace_filter d) = join_lines ?C"
      by (simp add: context_filter_def sp)
    moreover have "split_lines (context_filter n (whitespace_filter d)) = ?C"
      by (simp add: split_context_filter sp)
    ultimately show ?thesis by blast
  qed
  consider (same) "applyDiffFilters d opts = d"
    | (white) "applyDiffFilters d opts = whitespace_filter d"
    | (trim) n where "applyDiffFilters d opts = context_filter n d"
    | (both) n where "applyDiffFilters d opts = context_filter n (whitespace_filter d)"
    using applyDiffFilters_shapes [of d opts] by blast
  then show ?thesis
  proof cases
    case same
    show ?thesis unfolding same using id by blast
  next
    case white
    show ?thesis unfolding white using ws by blast
  next
    case (trim n)
    show ?thesis unfolding trim using ctx [of n] by blast
  next
    case (both n)
    show ?thesis unfolding both using cw [of n] by blast
  qed
qed

section \<open>Properties of the parser\<close>

lemma header_not_mode:
  "startsWith l ''diff --git'' \<Longrightarrow>
     \<not> startsWith l ''new file mode'' \<and> \<not> startsWith l ''deleted file mode''"
  by (auto simp: startsWith_def prefix_def)

lemma parse_step_header_open:
  assumes "is_file_header l" and "match_stat_header l = Some (a, b)"
  shows "parse_step (open_state finished cur) l = open_state (finished @ [cur]) (new_stat a b)"
  using assms header_not_mode [of l]
  by (simp add: parse_step_def open_state_def new_stat_def is_file_header_def Let_def)

lemma parse_step_header_initial:
  assumes "is_file_header l" and "match_stat_header l = Some (a, b)"
  shows "parse_step \<lparr>heap = [], files = [], currentFile = None\<rparr> l = open_state [] (new_stat a b)"
  using assms header_not_mode [of l]
  by (simp add: parse_step_def open_state_def new_stat_def is_file_header_def Let_def)

lemma parse_step_body_open:
  assumes "\<not> is_file_header l"
  shows "parse_step (open_state finished cur) l = open_state finished (absorb cur l)"
  using assms
  by (simp add: parse_step_def open_state_def absorb_def is_file_header_def Let_def)

lemma parse_step_body_initial:
  assumes "\<not> is_file_header l"
  shows "parse_step \<lparr>heap = [], files = [], currentFile = None\<rparr> l
         = \<lparr>heap = [], files = [], currentFile = None\<rparr>"
  using assms by (simp add: parse_step_def is_file_header_def Let_def)

lemma parse_result_open: "parse_result (open_state finished cur) = finished @ [cur]"
proof -
  have "map (\<lambda>r. (finished @ [cur]) ! r) [0..<length finished]
        = map (\<lambda>r. finished ! r) [0..<length finished]"
    by (rule map_cong) (simp_all add: nth_append)
  then have "map (\<lambda>r. (finished @ [cur]) ! r) [0..<length finished] = finished"
    by (simp only: map_nth)
  then show ?thesis by (simp add: parse_result_def open_state_def)
qed

lemma case_snoc:
  "(case xs @ [x] of [] \<Rightarrow> a | m # ms \<Rightarrow> g m) = (case xs of [] \<Rightarrow> g x | m # ms \<Rightarrow> g m)"
  by (cases xs) auto

lemma mode_line_not_counted:
  "is_mode_line l \<Longrightarrow> count_line l f = f"
  by (auto simp: is_mode_line_def count_line_def startsWith_def prefix_def)

lemma absorb_fields:
  "lines_added (absorb f l)
     = lines_added f + (if startsWith l ''+'' \<and> \<not> startsWith l ''+++'' then 1 else 0)"
  "lines_removed (absorb f l)
     = lines_removed f + (if startsWith l ''-'' \<and> \<not> startsWith l ''---'' then 1 else 0)"
  "old (absorb f l) = (if startsWith l ''new file mode'' then None else old f)"
  "new (absorb f l) = (if startsWith l ''deleted file mode'' then None else new f)"
  "status (absorb f l)
     = (if startsWith l ''deleted file mode'' then Removed
        else if startsWith l ''new file mode'' then Added else status f)"
  "DiffStat.more (absorb f l) = DiffStat.more f"
  by (auto simp: absorb_def count_line_def Let_def startsWith_def prefix_def)

lemma not_both_modes:
  "\<not> (startsWith l ''new file mode'' \<and> startsWith l ''deleted file mode'')"
  by (auto simp: startsWith_def prefix_def)

lemma foldl_absorb_fields:
  "lines_added (foldl absorb f body) = lines_added f + added_lines body"
  "lines_removed (foldl absorb f body) = lines_removed f + removed_lines body"
  "old (foldl absorb f body)
     = (if list_ex (\<lambda>l. startsWith l ''new file mode'') body then None else old f)"
  "new (foldl absorb f body)
     = (if list_ex (\<lambda>l. startsWith l ''deleted file mode'') body then None else new f)"
  "status (foldl absorb f body)
     = (case rev (filter is_mode_line body) of
          [] \<Rightarrow> status f
        | m # ms \<Rightarrow> if startsWith m ''new file mode'' then Added else Removed)"
  "DiffStat.more (foldl absorb f body) = DiffStat.more f"
proof (induction body arbitrary: f)
  case Nil
  {
    case 1 show ?case by (simp add: added_lines_def)
  next
    case 2 show ?case by (simp add: removed_lines_def)
  next
    case 3 show ?case by simp
  next
    case 4 show ?case by simp
  next
    case 5 show ?case by simp
  next
    case 6 show ?case by simp
  }
next
  case (Cons l body)
  {
    case 1 show ?case by (simp add: Cons.IH absorb_fields added_lines_def)
  next
    case 2 show ?case by (simp add: Cons.IH absorb_fields removed_lines_def)
  next
    case 3 show ?case by (simp add: Cons.IH absorb_fields)
  next
    case 4 show ?case by (simp add: Cons.IH absorb_fields)
  next
    case 5
    show ?case
      using not_both_modes [of l]
      by (auto simp: Cons.IH absorb_fields case_snoc is_mode_line_def split: list.splits)
  next
    case 6 show ?case by (simp add: Cons.IH absorb_fields)
  }
qed

lemma section_stat_foldl:
  assumes "match_stat_header h = Some (a, b)"
  shows "foldl absorb (new_stat a b) body = section_stat (h, body)"
  by (rule DiffStat.equality)
     (simp_all add: foldl_absorb_fields section_stat_def assms new_stat_def split: list.splits)

lemma sections_headers: "map fst (sections ls) = filter is_file_header ls"
  by (induction ls) auto

lemma well_formed_Cons:
  "well_formed_headers (l # ls) \<longleftrightarrow>
     (is_file_header l \<longrightarrow> match_stat_header l \<noteq> None) \<and> well_formed_headers ls"
  by (simp add: well_formed_headers_def)

lemma parse_loop_open:
  assumes "well_formed_headers ls"
  shows "parse_result (foldl parse_step (open_state finished cur) ls)
         = finished @ [foldl absorb cur (takeWhile (\<lambda>l. \<not> is_file_header l) ls)]
           @ map section_stat (sections ls)"
  using assms
proof (induction ls arbitrary: finished cur)
  case Nil
  show ?case by (simp add: parse_result_open)
next
  case (Cons l ls)
  from Cons.prems have wf: "well_formed_headers ls" by (simp add: well_formed_Cons)
  show ?case
  proof (cases "is_file_header l")
    case True
    with Cons.prems obtain a b where m: "match_stat_header l = Some (a, b)"
      by (auto simp: well_formed_Cons)
    from True m show ?thesis
      by (simp add: parse_step_header_open Cons.IH [OF wf] section_stat_foldl)
  next
    case False
    then show ?thesis
      by (simp add: parse_step_body_open Cons.IH [OF wf])
  qed
qed

lemma parse_loop_initial:
  assumes "well_formed_headers ls"
  shows "parse_result (foldl parse_step \<lparr>heap = [], files = [], currentFile = None\<rparr> ls)
         = map section_stat (sections ls)"
  using assms
proof (induction ls)
  case Nil
  show ?case by (simp add: parse_result_def)
next
  case (Cons l ls)
  from Cons.prems have wf: "well_formed_headers ls" by (simp add: well_formed_Cons)
  show ?case
  proof (cases "is_file_header l")
    case True
    with Cons.prems obtain a b where m: "match_stat_header l = Some (a, b)"
      by (auto simp: well_formed_Cons)
    from True m show ?thesis
      by (simp add: parse_step_header_initial parse_loop_open [OF wf] section_stat_foldl)
  next
    case False
    then show ?thesis
      by (simp add: parse_step_body_initial Cons.IH [OF wf])
  qed
qed

lemma section_stat_counts:
  assumes "match_stat_header h \<noteq> None"
  shows "lines_added (section_stat (h, body)) = added_lines body
         \<and> lines_removed (section_stat (h, body)) = removed_lines body"
  using assms by (auto simp: section_stat_def)

lemma sections_well_formed:
  "well_formed_headers ls \<Longrightarrow> sec \<in> set (sections ls) \<Longrightarrow> match_stat_header (fst sec) \<noteq> None"
proof -
  assume wf: "well_formed_headers ls" and "sec \<in> set (sections ls)"
  then have "fst sec \<in> set (filter is_file_header ls)"
    by (metis sections_headers image_eqI list.set_map)
  with wf show ?thesis by (auto simp: well_formed_headers_def list_all_iff)
qed

section \<open>Properties of the extractor\<close>

lemma sections_members:
  "sec \<in> set (sections ls) \<Longrightarrow>
     is_file_header (fst sec) \<and> fst sec \<in> set ls \<and> set (snd sec) \<subseteq> set ls
     \<and> (\<forall>l \<in> set (snd sec). \<not> is_file_header l)"
proof (induction ls)
  case Nil
  then show ?case by simp
next
  case (Cons l ls)
  show ?case
  proof (cases "sec = (l, takeWhile (\<lambda>l. \<not> is_file_header l) ls) \<and> is_file_header l")
    case True
    then show ?thesis
      by (auto dest: set_takeWhileD)
  next
    case False
    with Cons.prems have "sec \<in> set (sections ls)" by (auto split: if_splits)
    with Cons.IH show ?thesis by auto
  qed
qed

lemma sections_no_header: "\<forall>l \<in> set body. \<not> is_file_header l \<Longrightarrow> sections body = []"
  by (induction body) auto

lemma sections_single:
  assumes "is_file_header h" and "\<forall>l \<in> set body. \<not> is_file_header l"
  shows "sections (h # body) = [(h, body)]"
proof -
  from assms(2) have "takeWhile (\<lambda>l. \<not> is_file_header l) body = body"
    by (simp add: takeWhile_eq_all_conv)
  moreover from assms(2) have "sections body = []"
    by (rule sections_no_header)
  ultimately show ?thesis using assms(1) by simp
qed

lemma block_loop_sections:
  assumes "inTarget \<longrightarrow> currentBlock \<noteq> []"
  shows "block_loop target fileBlocks currentBlock inTarget ls =
         fileBlocks
         @ (if inTarget
            then [join_lines (currentBlock @ takeWhile (\<lambda>l. \<not> is_file_header l) ls)] else [])
         @ map section_text (filter (\<lambda>sec. target (fst sec)) (sections ls))"
  using assms
proof (induction ls arbitrary: fileBlocks currentBlock inTarget)
  case Nil
  then show ?case by simp
next
  case (Cons l ls)
  show ?case
  proof (cases "is_file_header l")
    case True
    have "block_loop target
            (if inTarget \<and> currentBlock \<noteq> [] then fileBlocks @ [join_lines currentBlock]
             else fileBlocks) [l] (target l) ls
          = (if inTarget \<and> currentBlock \<noteq> [] then fileBlocks @ [join_lines currentBlock]
             else fileBlocks)
            @ (if target l then [join_lines ([l] @ takeWhile (\<lambda>l. \<not> is_file_header l) ls)] else [])
            @ map section_text (filter (\<lambda>sec. target (fst sec)) (sections ls))"
      by (rule Cons.IH) simp
    with True Cons.prems show ?thesis
      by (simp add: is_file_header_def [symmetric] section_text_def)
  next
    case False
    have "block_loop target fileBlocks (currentBlock @ [l]) inTarget ls
          = fileBlocks
            @ (if inTarget
               then [join_lines ((currentBlock @ [l]) @ takeWhile (\<lambda>l. \<not> is_file_header l) ls)]
               else [])
            @ map section_text (filter (\<lambda>sec. target (fst sec)) (sections ls))"
      by (rule Cons.IH) simp
    with False show ?thesis
      by (simp add: is_file_header_def [symmetric])
  qed
qed

lemma block_loop_initial:
  "block_loop target [] [] False ls
   = map section_text (filter (\<lambda>sec. target (fst sec)) (sections ls))"
  using block_loop_sections [of False "[]" target "[]" ls] by simp

lemma trim_nonempty: "s \<noteq> [] \<Longrightarrow> \<not> js_space (hd s) \<Longrightarrow> trim s \<noteq> []"
proof -
  assume ne: "s \<noteq> []" and ns: "\<not> js_space (hd s)"
  then obtain c cs where s: "s = c # cs" and c: "\<not> js_space c" by (cases s) auto
  then have "dropWhile js_space s = c # cs" by simp
  moreover have "dropWhile js_space (rev (c # cs)) \<noteq> []"
    using c by (simp add: dropWhile_append)
  ultimately show ?thesis by (simp add: trim_def)
qed

lemma header_hd:
  "is_file_header h \<Longrightarrow> h \<noteq> [] \<and> hd h = CHR ''d''"
  by (auto simp: is_file_header_def startsWith_def prefix_def)

lemma join_lines_hd: "h \<noteq> [] \<Longrightarrow> join_lines (h # body) \<noteq> [] \<and> hd (join_lines (h # body)) = hd h"
  by (cases body) auto

lemma join_blocks_hd: "b \<noteq> [] \<Longrightarrow> join_blocks (b # bs) \<noteq> [] \<and> hd (join_blocks (b # bs)) = hd b"
  by (cases bs) auto

lemma section_text_hd:
  "is_file_header (fst sec) \<Longrightarrow> section_text sec \<noteq> [] \<and> hd (section_text sec) = CHR ''d''"
  using header_hd [of "fst sec"] join_lines_hd [of "fst sec" "snd sec"]
  by (cases sec) (simp add: section_text_def)

lemma trim_join_sections:
  assumes "secs \<noteq> []" and "\<forall>sec \<in> set secs. is_file_header (fst sec)"
  shows "trim (join_blocks (map section_text secs)) \<noteq> []"
proof -
  from assms obtain sec rest where secs: "secs = sec # rest" and h: "is_file_header (fst sec)"
    by (cases secs) auto
  from h have t: "section_text sec \<noteq> []" "hd (section_text sec) = CHR ''d''"
    using section_text_hd by auto
  then have "join_blocks (map section_text secs) \<noteq> []"
    and "hd (join_blocks (map section_text secs)) = CHR ''d''"
    using join_blocks_hd [of "section_text sec" "map section_text rest"] by (simp_all add: secs)
  then show ?thesis
    by (intro trim_nonempty) (simp_all add: js_space_def)
qed

text \<open>The extractor in terms of the file sections of the text.\<close>

lemma extractFileFromDiff_sections:
  "extractFileFromDiff fullDiff filePath =
     (let secs = sections (split_lines fullDiff);
          strict = filter (\<lambda>sec. header_in_target filePath (fst sec)) secs;
          lenient = filter (\<lambda>sec. header_in_lenient filePath (fst sec)) secs
      in if strict \<noteq> [] then join_blocks (map section_text strict)
         else if lenient \<noteq> [] then join_blocks (map section_text lenient)
         else no_changes_message filePath (length (matchedPaths (split_lines fullDiff))))"
proof -
  let ?secs = "sections (split_lines fullDiff)"
  let ?strict = "filter (\<lambda>sec. header_in_target filePath (fst sec)) ?secs"
  have hdr: "\<forall>sec \<in> set ?strict. is_file_header (fst sec)"
    using sections_members by auto
  have "trim (join_blocks (map section_text ?strict)) = [] \<longleftrightarrow> ?strict = []"
  proof
    assume "trim (join_blocks (map section_text ?strict)) = []"
    then show "?strict = []"
      using trim_join_sections [OF _ hdr] by blast
  next
    assume "?strict = []"
    then show "trim (join_blocks (map section_text ?strict)) = []"
      by (simp add: trim_def)
  qed
  then show ?thesis
    by (simp add: extractFileFromDiff_def block_loop_initial Let_def)
qed

lemma extract_single_section:
  assumes "sec \<in> set (sections (split_lines fullDiff))"
  shows "sections (split_lines (section_text sec)) = [sec]"
proof -
  obtain h body where sec: "sec = (h, body)" by (cases sec)
  from sections_members [OF assms] sec
  have hh: "is_file_header h" and nb: "\<forall>l \<in> set body. \<not> is_file_header l"
    and sub: "set (h # body) \<subseteq> set (split_lines fullDiff)"
    by auto
  from sub have "split_lines (join_lines (h # body)) = h # body"
    using split_join_sublist [of "h # body" fullDiff] by simp
  moreover have "sections (h # body) = [(h, body)]"
    by (rule sections_single [OF hh nb])
  ultimately show ?thesis
    by (simp only: sec section_text_def prod.case)
qed

text \<open>
  The list \<open>pathsToCheck\<close> holds the normalized target path itself, which matches
  itself: every \<open>diff --git\<close> line that the pattern matches sets \<open>inTargetFile\<close>,
  whatever the path, and a diff whose headers all match the pattern is returned
  whole, its sections joined by blank lines.
\<close>

lemma strip_end_keeps_head:
  assumes "xs \<noteq> []" and "\<not> P (hd xs)"
  shows "dropWhile P (rev (dropWhile P (rev xs))) = rev (dropWhile P (rev xs))"
proof -
  define t where "t = dropWhile P (rev xs)"
  define a where "a = takeWhile P (rev xs)"
  have "rev xs = a @ t" by (simp add: a_def t_def)
  then have "rev (rev xs) = rev (a @ t)" by (rule arg_cong)
  then have xs: "xs = rev t @ rev a" by simp
  show ?thesis
  proof (cases "t = []")
    case True
    then show ?thesis by (simp add: t_def [symmetric])
  next
    case False
    then obtain c cs where r: "rev t = c # cs" by (cases "rev t") auto
    with xs have "hd xs = c" by simp
    with assms(2) have "\<not> P c" by simp
    with r have "dropWhile P (rev t) = rev t" by simp
    then show ?thesis by (simp add: t_def [symmetric])
  qed
qed

lemma normalize_path_idem: "normalize_path (normalize_path p) = normalize_path p"
proof -
  define q where "q = dropWhile (\<lambda>c. c = CHR ''/'') p"
  define r where "r = rev (dropWhile (\<lambda>c. c = CHR ''/'') (rev q))"
  have n: "normalize_path p = r" by (simp add: normalize_path_def q_def r_def)
  have front: "dropWhile (\<lambda>c. c = CHR ''/'') r = r"
  proof (cases "q = []")
    case True
    then show ?thesis by (simp add: r_def)
  next
    case False
    then have "\<not> (\<lambda>c. c = CHR ''/'') (hd q)"
      unfolding q_def by (rule hd_dropWhile)
    with False show ?thesis
      unfolding r_def by (rule strip_end_keeps_head)
  qed
  have rear: "rev (dropWhile (\<lambda>c. c = CHR ''/'') (rev r)) = r"
    by (simp add: r_def)
  have "normalize_path r = rev (dropWhile (\<lambda>c. c = CHR ''/'') (rev (dropWhile (\<lambda>c. c = CHR ''/'') r)))"
    by (simp only: normalize_path_def)
  also have "\<dots> = r" by (simp only: front rear)
  finally show ?thesis by (simp only: n)
qed

lemma pattern_header_in_target:
  "match_extract_header line \<noteq> None \<Longrightarrow> header_in_target filePath line"
proof -
  assume "match_extract_header line \<noteq> None"
  then obtain pathA pathB where m: "match_extract_header line = Some (pathA, pathB)"
    by (cases "match_extract_header line") auto
  have "path_matches filePath (normalize_path filePath)"
    by (simp add: path_matches_def normalize_path_idem)
  then show ?thesis
    by (simp add: header_in_target_def m)
qed

lemma extract_ignores_path:
  assumes "sections (split_lines fullDiff) \<noteq> []"
    and "\<forall>sec \<in> set (sections (split_lines fullDiff)). match_extract_header (fst sec) \<noteq> None"
  shows "extractFileFromDiff fullDiff filePath
         = join_blocks (map section_text (sections (split_lines fullDiff)))"
proof -
  from assms(2)
  have "filter (\<lambda>sec. header_in_target filePath (fst sec)) (sections (split_lines fullDiff))
        = sections (split_lines fullDiff)"
    by (simp add: filter_id_conv pattern_header_in_target)
  with assms(1) show ?thesis
    by (simp add: extractFileFromDiff_sections Let_def)
qed

section \<open>Properties of the transport layer\<close>
















section \<open>Properties of the size budget\<close>

lemma sort_by_changes_descending:
  "sorted_wrt (\<lambda>x y. total_changes x \<ge> total_changes y) (sort_by_changes diffStat)
   \<and> mset (sort_by_changes diffStat) = mset diffStat"
proof -
  have "sorted (map (\<lambda>stat. - int (total_changes stat)) (sort_by_changes diffStat))"
    unfolding sort_by_changes_def by (rule sorted_sort_key)
  then have "sorted_wrt (\<lambda>x y. - int (total_changes x) \<le> - int (total_changes y))
               (sort_by_changes diffStat)"
    by (simp add: sorted_map)
  then have "sorted_wrt (\<lambda>x y. total_changes x \<ge> total_changes y) (sort_by_changes diffStat)"
    by simp
  then show ?thesis by (simp add: sort_by_changes_def)
qed

lemma no_file_path_try:
  assumes "file_path opts = None \<or> file_path opts = Some []" and "full_diff a = Inr fullDiff"
  shows "enhanced_try a opts =
         (if int (length fullDiff) \<le> 4 * MAX_TOKEN_SIZE opts then
            Inr \<lparr>diff = RawDiff (applyDiffFilters fullDiff opts),
                 truncated = False, files_list = None\<rparr>
          else
            (case diff_stat a of
               Inl e \<Rightarrow> Inl e
             | Inr diffStat \<Rightarrow>
                 Inr \<lparr>diff = TooLarge (too_large_summary (length fullDiff)
                                           (MAX_TOKEN_SIZE opts) diffStat),
                      truncated = True,
                      files_list = Some (map stat_path_or_unknown diffStat)\<rparr>))"
  using assms by (auto simp: enhanced_try_def)

section \<open>Claims about the post-filters\<close>

text \<open>
  C5, as stated, fails. With three context lines requested, the line
  \<open>index 1..2 100644\<close> of the second file section is removed, though it is no header
  line of the claim and no hunk-header line stands between the \<open>diff --git\<close> line
  of its section and itself: the loop never clears \<open>inHunk\<close>, and the three context
  lines that end the hunk before have used the count up.
\<close>

theorem context_trimming_counterexample:
  "applyDiffFilters
     ''diff --git a/f b/f\<newline>--- a/f\<newline>+++ b/f\<newline>@@ -1,4 +1,4 @@\<newline>-a\<newline>+b\<newline> c\<newline> d\<newline> e\<newline>diff --git a/g b/g\<newline>index 1..2 100644\<newline>--- a/g\<newline>+++ b/g\<newline>@@ -1 +1 @@\<newline>-x\<newline>+y''
     \<lparr>file_path = None, context_lines = Some 3, ignore_whitespace = None, max_size = None\<rparr>
   = ''diff --git a/f b/f\<newline>--- a/f\<newline>+++ b/f\<newline>@@ -1,4 +1,4 @@\<newline>-a\<newline>+b\<newline> c\<newline> d\<newline> e\<newline>diff --git a/g b/g\<newline>--- a/g\<newline>+++ b/g\<newline>@@ -1 +1 @@\<newline>-x\<newline>+y''
   \<and> outside_any_hunk
       [''diff --git a/f b/f'', ''--- a/f'', ''+++ b/f'', ''@@ -1,4 +1,4 @@'', ''-a'', ''+b'',
        '' c'', '' d'', '' e'', ''diff --git a/g b/g'']
   \<and> \<not> is_header_line ''index 1..2 100644''"
  by code_simp

text \<open>
  C5, amended. With \<open>context_lines = n\<close> and \<open>n \<ge> 0\<close>, the context trimming keeps,
  unchanged and in order, exactly the lines that come before the first hunk-header
  line of the text, the header lines (\<open>diff --git\<close>, \<open>---\<close>, \<open>+++\<close>, \<open>@@\<close>), the
  \<open>+\<close> and \<open>-\<close> lines, and each other line that has fewer than \<open>n\<close> such other
  lines between the last \<open>@@\<close>, \<open>+\<close> or \<open>-\<close> line and itself; it runs on the text
  that the whitespace filter returns when that filter is requested too.
\<close>

theorem context_trimming_spec:
  assumes "context_lines opts = Some n" and "0 \<le> n"
  shows "applyDiffFilters d opts =
         join_lines (trimmed_lines n
           (split_lines (if ignore_whitespace opts = Some True then whitespace_filter d else d)))"
  using assms
  by (simp add: applyDiffFilters_cases context_filter_def context_loop_trimmed)

theorem context_trimming_spec_witness:
  "context_lines \<lparr>file_path = None, context_lines = Some 1, ignore_whitespace = None,
      max_size = None\<rparr> = Some 1
   \<and> (0::int) \<le> 1
   \<and> applyDiffFilters ''index 1\<newline>@@ -1,3 +1,3 @@\<newline>-a\<newline> b\<newline> c\<newline>--- x''
        \<lparr>file_path = None, context_lines = Some 1, ignore_whitespace = None, max_size = None\<rparr>
      = ''index 1\<newline>@@ -1,3 +1,3 @@\<newline>-a\<newline> b\<newline>--- x''"
proof -
  have "join_lines (trimmed_lines 1
          (split_lines ''index 1\<newline>@@ -1,3 +1,3 @@\<newline>-a\<newline> b\<newline> c\<newline>--- x''))
        = ''index 1\<newline>@@ -1,3 +1,3 @@\<newline>-a\<newline> b\<newline>--- x''"
    by code_simp
  then show ?thesis
    using context_trimming_spec [of
      "\<lparr>file_path = None, context_lines = Some 1, ignore_whitespace = None, max_size = None\<rparr>"
      1 "''index 1\<newline>@@ -1,3 +1,3 @@\<newline>-a\<newline> b\<newline> c\<newline>--- x''"]
    by (simp del: split_lines.simps join_lines.simps)
qed

text \<open>
  C6. Applying \<open>applyDiffFilters\<close> to its own result, with the same options, changes
  nothing, whatever the options are (the whitespace filter among them); and the
  lines that begin with \<open>diff --git\<close>, \<open>---\<close>, \<open>+++\<close> or \<open>@@\<close> are the same, in the
  same order, in the result and in the input.
\<close>

theorem applyDiffFilters_idempotent_headers:
  "applyDiffFilters (applyDiffFilters d opts) opts = applyDiffFilters d opts
   \<and> filter is_header_line (split_lines (applyDiffFilters d opts))
     = filter is_header_line (split_lines d)"
proof
  show "applyDiffFilters (applyDiffFilters d opts) opts = applyDiffFilters d opts"
    by (simp add: applyDiffFilters_cases whitespace_filter_idem context_filter_idem
          whitespace_after_context split: option.splits)
  show "filter is_header_line (split_lines (applyDiffFilters d opts))
        = filter is_header_line (split_lines d)"
    by (simp add: applyDiffFilters_cases whitespace_filter_headers context_filter_headers
          split: option.splits)
qed

text \<open>
  C9, as stated, fails on a text in which every line is a whitespace-only change: no
  line is kept, the result is the empty string, and the empty string has one line,
  the empty one, which is not a line of the input.
\<close>

theorem applyDiffFilters_subseq_counterexample:
  "\<not> subseq
       (split_lines (applyDiffFilters ''+''
          \<lparr>file_path = None, context_lines = None, ignore_whitespace = Some True, max_size = None\<rparr>))
       (split_lines ''+'')"
  by code_simp

text \<open>
  C9, amended. For every text and all options, the result of \<open>applyDiffFilters\<close> is a
  subsequence of the input's lines, joined by newlines; and when the result is not
  the empty string, its lines are a subsequence of the input's lines.
\<close>

theorem applyDiffFilters_deletes_whole_lines:
  "(\<exists>ks. subseq ks (split_lines d) \<and> applyDiffFilters d opts = join_lines ks)
   \<and> (applyDiffFilters d opts \<noteq> []
        \<longrightarrow> subseq (split_lines (applyDiffFilters d opts)) (split_lines d))"
proof -
  obtain ks where ks: "subseq ks (split_lines d)" "applyDiffFilters d opts = join_lines ks"
    "ks \<noteq> [] \<longrightarrow> split_lines (applyDiffFilters d opts) = ks"
    using applyDiffFilters_as_join [of d opts] by blast
  have "subseq (split_lines (applyDiffFilters d opts)) (split_lines d)"
    if "applyDiffFilters d opts \<noteq> []"
  proof -
    from that ks(2) have "ks \<noteq> []" by auto
    with ks show ?thesis by simp
  qed
  with ks show ?thesis by blast
qed

theorem applyDiffFilters_deletes_whole_lines_witness:
  "applyDiffFilters ''a\<newline>+''
     \<lparr>file_path = None, context_lines = None, ignore_whitespace = Some True, max_size = None\<rparr> \<noteq> []
   \<and> subseq
       (split_lines (applyDiffFilters ''a\<newline>+''
          \<lparr>file_path = None, context_lines = None, ignore_whitespace = Some True, max_size = None\<rparr>))
       (split_lines ''a\<newline>+'')"
proof -
  have ne: "applyDiffFilters ''a\<newline>+''
     \<lparr>file_path = None, context_lines = None, ignore_whitespace = Some True, max_size = None\<rparr> \<noteq> []"
    by code_simp
  with applyDiffFilters_deletes_whole_lines [of "''a\<newline>+''"
      "\<lparr>file_path = None, context_lines = None, ignore_whitespace = Some True, max_size = None\<rparr>"]
  show ?thesis by blast
qed

text \<open>
  C10. With \<open>ignore_whitespace\<close> absent or false and \<open>context_lines\<close> absent,
  \<open>applyDiffFilters\<close> returns its input.
\<close>

theorem applyDiffFilters_identity:
  "ignore_whitespace opts \<noteq> Some True \<Longrightarrow> context_lines opts = None
   \<Longrightarrow> applyDiffFilters d opts = d"
  by (simp add: applyDiffFilters_def)

theorem applyDiffFilters_identity_witness:
  "ignore_whitespace \<lparr>file_path = None, context_lines = None, ignore_whitespace = Some False,
      max_size = None\<rparr> \<noteq> Some True
   \<and> context_lines \<lparr>file_path = None, context_lines = None, ignore_whitespace = Some False,
      max_size = None\<rparr> = None
   \<and> applyDiffFilters ''@@ -1 +1 @@\<newline>- \<newline>+x''
        \<lparr>file_path = None, context_lines = None, ignore_whitespace = Some False, max_size = None\<rparr>
      = ''@@ -1 +1 @@\<newline>- \<newline>+x''"
  using applyDiffFilters_identity [of
      "\<lparr>file_path = None, context_lines = None, ignore_whitespace = Some False, max_size = None\<rparr>"
      "''@@ -1 +1 @@\<newline>- \<newline>+x''"]
  by simp

section \<open>Claims about the parser\<close>

text \<open>
  C3, as stated, fails on a diff whose \<open>diff --git\<close> line does not have the prefixes
  \<open>a/\<close> and \<open>b/\<close> (the format of \<open>git diff --no-prefix\<close>): the pattern does not
  match, no record is created, and the result has no record for the line.
\<close>

theorem parseDiffForFileStats_counterexample:
  "parseDiffForFileStats
     ''diff --git README.md README.md\<newline>--- README.md\<newline>+++ README.md\<newline>@@ -1 +1 @@\<newline>-a\<newline>+b''
   = []
   \<and> filter is_file_header (split_lines
     ''diff --git README.md README.md\<newline>--- README.md\<newline>+++ README.md\<newline>@@ -1 +1 @@\<newline>-a\<newline>+b'')
   = [''diff --git README.md README.md'']"
  by code_simp

text \<open>
  C3, amended. For every text in which every \<open>diff --git\<close> line has the form
  \<open>diff --git a/<old> b/<new>\<close>, \<open>parseDiffForFileStats\<close> returns one record for each
  \<open>diff --git\<close> line, in the order of these lines: the record of the file section
  that the line starts, whose \<open>lines_added\<close> is the number of lines of the section
  that begin with \<open>+\<close> but not with \<open>+++\<close>, and whose \<open>lines_removed\<close> is the number
  of those that begin with \<open>-\<close> but not with \<open>---\<close>.
\<close>

theorem parseDiffForFileStats_sections:
  assumes "well_formed_headers (split_lines diffText)"
  shows "parseDiffForFileStats diffText = map section_stat (sections (split_lines diffText))
         \<and> map fst (sections (split_lines diffText))
           = filter is_file_header (split_lines diffText)
         \<and> length (parseDiffForFileStats diffText)
           = length (filter is_file_header (split_lines diffText))
         \<and> map (\<lambda>f. (lines_added f, lines_removed f)) (parseDiffForFileStats diffText)
           = map (\<lambda>sec. (added_lines (snd sec), removed_lines (snd sec)))
               (sections (split_lines diffText))"
proof -
  let ?ls = "split_lines diffText"
  have p: "parseDiffForFileStats diffText = map section_stat (sections ?ls)"
    unfolding parseDiffForFileStats_def by (rule parse_loop_initial [OF assms])
  have h: "map fst (sections ?ls) = filter is_file_header ?ls"
    by (rule sections_headers)
  have "length (map section_stat (sections ?ls)) = length (map fst (sections ?ls))"
    by simp
  then have n: "length (parseDiffForFileStats diffText) = length (filter is_file_header ?ls)"
    by (simp only: p h)
  have "map (\<lambda>f. (lines_added f, lines_removed f)) (map section_stat (sections ?ls))
        = map (\<lambda>sec. (added_lines (snd sec), removed_lines (snd sec))) (sections ?ls)"
    unfolding map_map
  proof (rule map_cong [OF refl])
    fix sec
    assume "sec \<in> set (sections ?ls)"
    then have "match_stat_header (fst sec) \<noteq> None"
      by (rule sections_well_formed [OF assms])
    then show "((\<lambda>f. (lines_added f, lines_removed f)) \<circ> section_stat) sec
               = (added_lines (snd sec), removed_lines (snd sec))"
      using section_stat_counts [of "fst sec" "snd sec"] by simp
  qed
  then have c: "map (\<lambda>f. (lines_added f, lines_removed f)) (parseDiffForFileStats diffText)
        = map (\<lambda>sec. (added_lines (snd sec), removed_lines (snd sec))) (sections ?ls)"
    by (simp only: p)
  from p h n c show ?thesis by (intro conjI)
qed

theorem parseDiffForFileStats_sections_witness:
  "well_formed_headers (split_lines
     ''diff --git a/x b/x\<newline>--- a/x\<newline>+++ b/x\<newline>@@ -1 +1,2 @@\<newline>-a\<newline>+b\<newline>+c\<newline>diff --git a/y b/y\<newline>new file mode 100644\<newline>+d'')
   \<and> parseDiffForFileStats
     ''diff --git a/x b/x\<newline>--- a/x\<newline>+++ b/x\<newline>@@ -1 +1,2 @@\<newline>-a\<newline>+b\<newline>+c\<newline>diff --git a/y b/y\<newline>new file mode 100644\<newline>+d''
   = [\<lparr>old = Some ''x'', new = Some ''x'', status = Modified, lines_added = 2, lines_removed = 1\<rparr>,
      \<lparr>old = None, new = Some ''y'', status = Added, lines_added = 1, lines_removed = 0\<rparr>]"
proof -
  let ?d = "''diff --git a/x b/x\<newline>--- a/x\<newline>+++ b/x\<newline>@@ -1 +1,2 @@\<newline>-a\<newline>+b\<newline>+c\<newline>diff --git a/y b/y\<newline>new file mode 100644\<newline>+d''"
  have wf: "well_formed_headers (split_lines ?d)"
    by code_simp
  have rhs: "map section_stat (sections (split_lines ?d))
    = [\<lparr>old = Some ''x'', new = Some ''x'', status = Modified, lines_added = 2, lines_removed = 1\<rparr>,
       \<lparr>old = None, new = Some ''y'', status = Added, lines_added = 1, lines_removed = 0\<rparr>]"
    by code_simp
  from parseDiffForFileStats_sections [OF wf]
  have "parseDiffForFileStats ?d = map section_stat (sections (split_lines ?d))"
    by (rule conjunct1)
  then have "parseDiffForFileStats ?d
    = [\<lparr>old = Some ''x'', new = Some ''x'', status = Modified, lines_added = 2, lines_removed = 1\<rparr>,
       \<lparr>old = None, new = Some ''y'', status = Added, lines_added = 1, lines_removed = 0\<rparr>]"
    by (simp only: rhs)
  with wf show ?thesis by (rule conjI)
qed

section \<open>Claims about the extractor\<close>

text \<open>
  C4 does not hold of the code. For the diff of the files \<open>src/a.ts\<close> and \<open>src/b.ts\<close>
  and the path \<open>src/a.ts\<close>, \<open>extractFileFromDiff\<close> returns the blocks of both files,
  joined by a blank line; extracting the path from that result takes the blank line
  into the first block, so the second result has one more newline than the first.
\<close>

theorem extractFileFromDiff_selects_other_files:
  "extractFileFromDiff
     ''diff --git a/src/a.ts b/src/a.ts\<newline>@@ -1 +1 @@\<newline>-a\<newline>+b\<newline>diff --git a/src/b.ts b/src/b.ts\<newline>@@ -1 +1 @@\<newline>-c\<newline>+d''
     ''src/a.ts''
   = ''diff --git a/src/a.ts b/src/a.ts\<newline>@@ -1 +1 @@\<newline>-a\<newline>+b\<newline>\<newline>diff --git a/src/b.ts b/src/b.ts\<newline>@@ -1 +1 @@\<newline>-c\<newline>+d''
   \<and> extractFileFromDiff
       ''diff --git a/src/a.ts b/src/a.ts\<newline>@@ -1 +1 @@\<newline>-a\<newline>+b\<newline>\<newline>diff --git a/src/b.ts b/src/b.ts\<newline>@@ -1 +1 @@\<newline>-c\<newline>+d''
       ''src/a.ts''
     = ''diff --git a/src/a.ts b/src/a.ts\<newline>@@ -1 +1 @@\<newline>-a\<newline>+b\<newline>\<newline>\<newline>diff --git a/src/b.ts b/src/b.ts\<newline>@@ -1 +1 @@\<newline>-c\<newline>+d''
   \<and> extractFileFromDiff
       (extractFileFromDiff
          ''diff --git a/src/a.ts b/src/a.ts\<newline>@@ -1 +1 @@\<newline>-a\<newline>+b\<newline>diff --git a/src/b.ts b/src/b.ts\<newline>@@ -1 +1 @@\<newline>-c\<newline>+d''
          ''src/a.ts'')
       ''src/a.ts''
     \<noteq> extractFileFromDiff
         ''diff --git a/src/a.ts b/src/a.ts\<newline>@@ -1 +1 @@\<newline>-a\<newline>+b\<newline>diff --git a/src/b.ts b/src/b.ts\<newline>@@ -1 +1 @@\<newline>-c\<newline>+d''
         ''src/a.ts''"
  by code_simp

section \<open>Claims about the cache\<close>

text \<open>
  C7. \<open>get\<close> returns a value exactly when the key has an entry whose age, \<open>now\<close> minus
  its timestamp, is at most its TTL, and the value is the stored one; when it returns
  nothing the key has no entry afterwards, and otherwise the cache is unchanged. The
  sweep does not change what \<open>get\<close> returns, and \<open>get\<close> 150 ms after a \<open>set\<close> with a TTL
  of 100 ms returns nothing.
\<close>

theorem cache_get_fresh_only:
  "(fst (cache_get c now key) = Some v
      \<longleftrightarrow> (\<exists>entry. c key = Some entry \<and> data entry = v \<and> now - timestamp entry \<le> ttl entry))
   \<and> (fst (cache_get c now key) = None \<longrightarrow> snd (cache_get c now key) = c(key := None))
   \<and> (fst (cache_get c now key) \<noteq> None \<longrightarrow> snd (cache_get c now key) = c)
   \<and> fst (cache_get (cleanup c now) now key) = fst (cache_get c now key)
   \<and> fst (cache_get (cache_set c now key v (Some 100)) (now + 150) key) = None"
proof (intro conjI)
  show "fst (cache_get c now key) = Some v
      \<longleftrightarrow> (\<exists>entry. c key = Some entry \<and> data entry = v \<and> now - timestamp entry \<le> ttl entry)"
    by (auto simp: cache_get_def split: option.splits)
  show "fst (cache_get c now key) = None \<longrightarrow> snd (cache_get c now key) = c(key := None)"
    by (auto simp: cache_get_def split: option.splits)
  show "fst (cache_get c now key) \<noteq> None \<longrightarrow> snd (cache_get c now key) = c"
    by (auto simp: cache_get_def split: option.splits)
  show "fst (cache_get (cleanup c now) now key) = fst (cache_get c now key)"
    by (auto simp: cache_get_def cleanup_def expired_def split: option.splits)
  show "fst (cache_get (cache_set c now key v (Some 100)) (now + 150) key) = None"
    by (simp add: cache_get_def cache_set_def)
qed

theorem cache_get_fresh_only_witness:
  "fst (cache_get (Map.empty(''pr:w:r:1'' \<mapsto> \<lparr>data = 7::nat, timestamp = 1000, ttl = 100\<rparr>))
          1100 ''pr:w:r:1'') = Some 7
   \<and> fst (cache_get (Map.empty(''pr:w:r:1'' \<mapsto> \<lparr>data = 7::nat, timestamp = 1000, ttl = 100\<rparr>))
          1101 ''pr:w:r:1'') = None
   \<and> snd (cache_get (Map.empty(''pr:w:r:1'' \<mapsto> \<lparr>data = 7::nat, timestamp = 1000, ttl = 100\<rparr>))
          1101 ''pr:w:r:1'') = Map.empty"
proof -
  let ?c = "Map.empty(''pr:w:r:1'' \<mapsto> \<lparr>data = 7::nat, timestamp = 1000, ttl = 100\<rparr>)"
  note fresh = cache_get_fresh_only [of ?c 1100 "''pr:w:r:1''" 7]
  note stale = cache_get_fresh_only [of ?c 1101 "''pr:w:r:1''" 7]
  have a: "fst (cache_get ?c 1100 ''pr:w:r:1'') = Some 7"
    using fresh by simp
  have "fst (cache_get ?c 1101 ''pr:w:r:1'') \<noteq> Some 7"
    using stale by simp
  moreover have "fst (cache_get ?c 1101 ''pr:w:r:1'') = None \<or> fst (cache_get ?c 1101 ''pr:w:r:1'') = Some 7"
    by (simp add: cache_get_def)
  ultimately have b: "fst (cache_get ?c 1101 ''pr:w:r:1'') = None" by blast
  with stale have "snd (cache_get ?c 1101 ''pr:w:r:1'') = ?c(''pr:w:r:1'' := None)"
    by blast
  then have c: "snd (cache_get ?c 1101 ''pr:w:r:1'') = Map.empty" by simp
  from a b c show ?thesis by (intro conjI)
qed

section \<open>Claims about the transport layer\<close>



section \<open>Claims about the size budget\<close>

text \<open>
  C2, as stated, fails when \<open>getPullRequestDiffStat\<close> throws (here the \<open>diffstat\<close>
  endpoint answers 404 and the fetch of the diff for parsing fails with a server
  error): the \<open>catch\<close> block fetches the diff again and returns it with
  \<open>truncated = false\<close>, though a quarter of its 100000 characters exceeds the limit of
  20000.
\<close>

theorem getPullRequestDiffEnhanced_too_large_counterexample:
  "int (length (replicate 100000 CHR ''+'')) > 4 * 20000
   \<and> getPullRequestDiffEnhanced
        \<lparr>file_specific_diff = Inl (AxiosError None),
         full_diff = Inr (replicate 100000 CHR ''+''),
         diff_stat = getPullRequestDiffStat (Inl (AxiosError (Some 404)))
                       (Inl (Handled (AxiosError (Some 500)))),
         original_diff = Inr (replicate 100000 CHR ''+'')\<rparr>
        \<lparr>file_path = None, context_lines = None, ignore_whitespace = None, max_size = Some 20000\<rparr>
      = Inr \<lparr>diff = RawDiff (replicate 100000 CHR ''+''), truncated = False, files_list = None\<rparr>"
  by (simp add: getPullRequestDiffEnhanced_def enhanced_try_def MAX_TOKEN_SIZE_def
        getPullRequestDiffStat_def applyDiffFilters_def del: replicate.simps)

text \<open>
  C2, amended. For every call with no \<open>file_path\<close> in which the first fetch of the
  diff returns: when a quarter of the diff's length is at most \<open>max_size\<close> (20000 by
  default), the result is the filtered diff with \<open>truncated = false\<close>; when it exceeds
  \<open>max_size\<close> and \<open>getPullRequestDiffStat\<close> returns the statistics, the result is the
  summary with \<open>truncated = true\<close>, which lists the first ten files and the number of
  the others, and under the most changed files the first five in the stable order of
  decreasing \<open>lines_added + lines_removed\<close>; when it exceeds \<open>max_size\<close> and
  \<open>getPullRequestDiffStat\<close> throws, the result is that of the second fetch of the
  diff: its error, or the filtered diff with \<open>truncated = false\<close>.
\<close>

theorem getPullRequestDiffEnhanced_no_file_path:
  assumes "file_path opts = None \<or> file_path opts = Some []" and "full_diff a = Inr fullDiff"
  shows
    "(int (length fullDiff) \<le> 4 * MAX_TOKEN_SIZE opts \<longrightarrow>
        getPullRequestDiffEnhanced a opts
        = Inr \<lparr>diff = RawDiff (applyDiffFilters fullDiff opts), truncated = False, files_list = None\<rparr>)
     \<and> (int (length fullDiff) > 4 * MAX_TOKEN_SIZE opts \<longrightarrow>
        (\<forall>diffStat. diff_stat a = Inr diffStat \<longrightarrow>
           getPullRequestDiffEnhanced a opts
           = Inr \<lparr>diff = TooLarge (too_large_summary (length fullDiff) (MAX_TOKEN_SIZE opts) diffStat),
                  truncated = True, files_list = Some (map stat_path_or_unknown diffStat)\<rparr>
           \<and> length (listed (too_large_summary (length fullDiff) (MAX_TOKEN_SIZE opts) diffStat))
             = min 10 (length diffStat)
           \<and> more_files (too_large_summary (length fullDiff) (MAX_TOKEN_SIZE opts) diffStat)
             = (if length diffStat > 10 then Some (length diffStat - 10) else None)
           \<and> most_changed (too_large_summary (length fullDiff) (MAX_TOKEN_SIZE opts) diffStat)
             = map (\<lambda>stat. (stat_path stat, lines_added stat, lines_removed stat))
                 (take 5 (sort_by_changes diffStat))
           \<and> sorted_wrt (\<lambda>x y. total_changes x \<ge> total_changes y) (sort_by_changes diffStat)
           \<and> mset (sort_by_changes diffStat) = mset diffStat)
        \<and> (\<forall>e. diff_stat a = Inl e \<longrightarrow>
           getPullRequestDiffEnhanced a opts
           = (case original_diff a of
                Inl e' \<Rightarrow> Inl e'
              | Inr originalDiff \<Rightarrow>
                  Inr \<lparr>diff = RawDiff (applyDiffFilters originalDiff opts),
                       truncated = False, files_list = None\<rparr>)))"
proof (intro conjI impI allI)
  assume "int (length fullDiff) \<le> 4 * MAX_TOKEN_SIZE opts"
  then show "getPullRequestDiffEnhanced a opts
        = Inr \<lparr>diff = RawDiff (applyDiffFilters fullDiff opts), truncated = False, files_list = None\<rparr>"
    by (simp add: getPullRequestDiffEnhanced_def no_file_path_try [OF assms])
next
  fix diffStat
  assume "4 * MAX_TOKEN_SIZE opts < int (length fullDiff)" and "diff_stat a = Inr diffStat"
  then show "getPullRequestDiffEnhanced a opts
           = Inr \<lparr>diff = TooLarge (too_large_summary (length fullDiff) (MAX_TOKEN_SIZE opts) diffStat),
                  truncated = True, files_list = Some (map stat_path_or_unknown diffStat)\<rparr>"
    by (simp add: getPullRequestDiffEnhanced_def no_file_path_try [OF assms])
  show "length (listed (too_large_summary (length fullDiff) (MAX_TOKEN_SIZE opts) diffStat))
        = min 10 (length diffStat)"
    by (simp add: too_large_summary_def)
  show "more_files (too_large_summary (length fullDiff) (MAX_TOKEN_SIZE opts) diffStat)
        = (if length diffStat > 10 then Some (length diffStat - 10) else None)"
    by (simp add: too_large_summary_def)
  show "most_changed (too_large_summary (length fullDiff) (MAX_TOKEN_SIZE opts) diffStat)
        = map (\<lambda>stat. (stat_path stat, lines_added stat, lines_removed stat))
            (take 5 (sort_by_changes diffStat))"
    by (simp add: too_large_summary_def)
  show "sorted_wrt (\<lambda>x y. total_changes x \<ge> total_changes y) (sort_by_changes diffStat)"
    using sort_by_changes_descending [of diffStat] by (rule conjunct1)
  show "mset (sort_by_changes diffStat) = mset diffStat"
    using sort_by_changes_descending [of diffStat] by (rule conjunct2)
next
  fix e
  assume "4 * MAX_TOKEN_SIZE opts < int (length fullDiff)" and "diff_stat a = Inl e"
  then show "getPullRequestDiffEnhanced a opts
           = (case original_diff a of
                Inl e' \<Rightarrow> Inl e'
              | Inr originalDiff \<Rightarrow>
                  Inr \<lparr>diff = RawDiff (applyDiffFilters originalDiff opts),
                       truncated = False, files_list = None\<rparr>)"
    by (simp add: getPullRequestDiffEnhanced_def no_file_path_try [OF assms])
qed

theorem getPullRequestDiffEnhanced_no_file_path_witness:
  "(file_path \<lparr>file_path = None, context_lines = None, ignore_whitespace = None,
       max_size = Some 1000\<rparr> = None
    \<or> file_path \<lparr>file_path = None, context_lines = None, ignore_whitespace = None,
       max_size = Some 1000\<rparr> = Some [])
   \<and> 4 * MAX_TOKEN_SIZE \<lparr>file_path = None, context_lines = None, ignore_whitespace = None,
       max_size = Some 1000\<rparr> < int (length (replicate 4004 CHR ''+''))
   \<and> getPullRequestDiffEnhanced
       \<lparr>file_specific_diff = Inl (AxiosError None),
        full_diff = Inr (replicate 4004 CHR ''+''),
        diff_stat = Inr
          [\<lparr>old = Some ''a.ts'', new = Some ''a.ts'', status = Modified,
            lines_added = 1, lines_removed = 0\<rparr>,
           \<lparr>old = None, new = Some ''b.ts'', status = Added,
            lines_added = 5, lines_removed = 0\<rparr>],
        original_diff = Inl (AxiosError None)\<rparr>
       \<lparr>file_path = None, context_lines = None, ignore_whitespace = None, max_size = Some 1000\<rparr>
     = Inr \<lparr>diff = TooLarge
               \<lparr>estimated = 1001, limit = 1000, files_changed = 2,
                listed = [(''a.ts'', Modified, 1, 0), (''b.ts'', Added, 5, 0)],
                more_files = None,
                most_changed = [(Some ''b.ts'', 5, 0), (Some ''a.ts'', 1, 0)]\<rparr>,
             truncated = True, files_list = Some [''a.ts'', ''b.ts'']\<rparr>"
proof -
  let ?opts = "\<lparr>file_path = None, context_lines = None, ignore_whitespace = None,
                 max_size = Some 1000\<rparr>"
  let ?stats = "[\<lparr>old = Some ''a.ts'', new = Some ''a.ts'', status = Modified,
                   lines_added = 1, lines_removed = 0\<rparr>,
                 \<lparr>old = None, new = Some ''b.ts'', status = Added,
                   lines_added = 5, lines_removed = 0\<rparr>]"
  let ?a = "\<lparr>file_specific_diff = Inl (AxiosError None),
              full_diff = Inr (replicate 4004 CHR ''+''),
              diff_stat = Inr ?stats,
              original_diff = Inl (AxiosError None)\<rparr>"
  have nofile: "file_path ?opts = None \<or> file_path ?opts = Some []" by simp
  have fetched: "full_diff ?a = Inr (replicate 4004 CHR ''+'')" by simp
  have large: "4 * MAX_TOKEN_SIZE ?opts < int (length (replicate 4004 CHR ''+''))"
    by (simp add: MAX_TOKEN_SIZE_def del: replicate.simps)
  have stats: "diff_stat ?a = Inr ?stats" by simp
  have summary: "too_large_summary (length (replicate 4004 CHR ''+'')) (MAX_TOKEN_SIZE ?opts) ?stats
      = \<lparr>estimated = 1001, limit = 1000, files_changed = 2,
         listed = [(''a.ts'', Modified, 1, 0), (''b.ts'', Added, 5, 0)],
         more_files = None,
         most_changed = [(Some ''b.ts'', 5, 0), (Some ''a.ts'', 1, 0)]\<rparr>"
    by code_simp
  have paths: "map stat_path_or_unknown ?stats = [''a.ts'', ''b.ts'']"
    by code_simp
  from getPullRequestDiffEnhanced_no_file_path [OF nofile fetched] large stats
  have "getPullRequestDiffEnhanced ?a ?opts
        = Inr \<lparr>diff = TooLarge (too_large_summary (length (replicate 4004 CHR ''+''))
                                  (MAX_TOKEN_SIZE ?opts) ?stats),
               truncated = True, files_list = Some (map stat_path_or_unknown ?stats)\<rparr>"
    by blast
  then have "getPullRequestDiffEnhanced ?a ?opts
        = Inr \<lparr>diff = TooLarge
                  \<lparr>estimated = 1001, limit = 1000, files_changed = 2,
                   listed = [(''a.ts'', Modified, 1, 0), (''b.ts'', Added, 5, 0)],
                   more_files = None,
                   most_changed = [(Some ''b.ts'', 5, 0), (Some ''a.ts'', 1, 0)]\<rparr>,
                truncated = True, files_list = Some [''a.ts'', ''b.ts'']\<rparr>"
    by (simp only: summary paths)
  with nofile large show ?thesis by (intro conjI)
qed

section \<open>Claims about the diff fetcher\<close>

text \<open>
  Whenever the direct request succeeds and the content check fails, the error of the
  check has no response, so it is not taken for a 404: \<open>handleBitbucketError\<close> throws
  in its place.
\<close>

lemma content_mismatch_raises:
  assumes "direct_diff u = Inr responseData" and "validation_pr u = Inr pr"
    and "isEmergencyContactPR pr" and "diffHasLearningFiles (toLowerCase responseData)"
  shows "getPullRequestDiff u
         = Inl (Handled (PlainError ''Content mismatch: PR diff does not match PR topic''))"
  using assms by (simp add: getPullRequestDiff_def direct_fetch_def handleBitbucketError_def)

text \<open>
  C1 does not hold of the code. The direct request succeeds with a diff about
  \<open>learning-api\<close> for a pull request titled \<open>Emergency contact form\<close>: the content
  check fails, and \<open>getPullRequestDiff\<close> throws to the caller, though the fallback
  chain, had it been entered, would have returned the diff of the first commit.
\<close>

theorem getPullRequestDiff_content_mismatch_raises:
  "getPullRequestDiff
     \<lparr>direct_diff = Inr ''diff --git a/learning-api/cpd.ts b/learning-api/cpd.ts\<newline>+x'',
      validation_pr = Inr \<lparr>title = ''Emergency contact form'', source_branch_name = ''feature/form'',
                             destination_branch_name = ''main'', source_commit_hash = Some ''abc'',
                             destination_commit_hash = Some ''def''\<rparr>,
      fallback_pr = Inr \<lparr>title = ''Emergency contact form'', source_branch_name = ''feature/form'',
                           destination_branch_name = ''main'', source_commit_hash = Some ''abc'',
                           destination_commit_hash = Some ''def''\<rparr>,
      pr_commits = Inr [\<lparr>hash = ''abc'', message = ''Add emergency contact form''\<rparr>],
      single_commit_diff = (\<lambda>i. Inr ''diff --git a/contact.ts b/contact.ts\<newline>+emergency''),
      branch_diff = Inr ''diff --git a/contact.ts b/contact.ts\<newline>+emergency'',
      commit_range_diff = Inr ''diff --git a/contact.ts b/contact.ts\<newline>+emergency''\<rparr>
   = Inl (Handled (PlainError ''Content mismatch: PR diff does not match PR topic''))
   \<and> fallback_chain
     \<lparr>direct_diff = Inr ''diff --git a/learning-api/cpd.ts b/learning-api/cpd.ts\<newline>+x'',
      validation_pr = Inr \<lparr>title = ''Emergency contact form'', source_branch_name = ''feature/form'',
                             destination_branch_name = ''main'', source_commit_hash = Some ''abc'',
                             destination_commit_hash = Some ''def''\<rparr>,
      fallback_pr = Inr \<lparr>title = ''Emergency contact form'', source_branch_name = ''feature/form'',
                           destination_branch_name = ''main'', source_commit_hash = Some ''abc'',
                           destination_commit_hash = Some ''def''\<rparr>,
      pr_commits = Inr [\<lparr>hash = ''abc'', message = ''Add emergency contact form''\<rparr>],
      single_commit_diff = (\<lambda>i. Inr ''diff --git a/contact.ts b/contact.ts\<newline>+emergency''),
      branch_diff = Inr ''diff --git a/contact.ts b/contact.ts\<newline>+emergency'',
      commit_range_diff = Inr ''diff --git a/contact.ts b/contact.ts\<newline>+emergency''\<rparr>
   = Inr (DiffText ''diff --git a/contact.ts b/contact.ts\<newline>+emergency'')"
  by code_simp

end
